theory Spec2Isabelle
  imports Main "HOL-Library.Word" "HOL-Library.AList"
begin

section \<open>Bytes, Python integers and strings\<close>

text \<open>
  The three scripts of the repository (\<^verbatim>\<open>listmmf_reader.py\<close>,
  \<^verbatim>\<open>scan_listmmf_stats.py\<close>, \<^verbatim>\<open>mmf_to_parquet.py\<close>) are embedded as HOL functions.
  Python integers are unbounded and are modelled as \<open>int\<close>; numpy's fixed-width elements
  are modelled by their little-endian bytes and read as words, so that numpy's silent
  wrap-around is part of the model.  A raised exception is a value of a sum type
  (\<open>Inl\<close> the exception), and what a function prints on standard error is returned as a
  list of lines.  Progress messages on standard output are not modelled.
\<close>

type_synonym byte = "8 word"
type_synonym path = string

text \<open>\<^verbatim>\<open>int.from_bytes(bs, 'little')\<close> and \<^verbatim>\<open>x.to_bytes(n, 'little')\<close> (of \<open>x mod 256 ^ n\<close>).\<close>

fun le_to_nat :: "byte list \<Rightarrow> nat" where
  "le_to_nat [] = 0"
| "le_to_nat (b # bs) = unat b + 256 * le_to_nat bs"

fun nat_to_le :: "nat \<Rightarrow> nat \<Rightarrow> byte list" where
  "nat_to_le 0 x = []"
| "nat_to_le (Suc n) x = word_of_nat (x mod 256) # nat_to_le n (x div 256)"

definition word32_of_bytes :: "byte list \<Rightarrow> 32 word" where
  "word32_of_bytes bs = word_of_nat (le_to_nat bs)"

definition word64_of_bytes :: "byte list \<Rightarrow> 64 word" where
  "word64_of_bytes bs = word_of_nat (le_to_nat bs)"

definition bytes_of_word64 :: "64 word \<Rightarrow> byte list" where
  "bytes_of_word64 w = nat_to_le 8 (unat w)"

text \<open>The values of a little-endian \<^verbatim>\<open>i\<close> (int32) and \<^verbatim>\<open>q\<close> (int64) field.\<close>

definition int32_of_bytes :: "byte list \<Rightarrow> int" where
  "int32_of_bytes bs = sint (word32_of_bytes bs)"

definition int64_of_bytes :: "byte list \<Rightarrow> int" where
  "int64_of_bytes bs = sint (word64_of_bytes bs)"

text \<open>
  \<^verbatim>\<open>struct.unpack('<iiq', b)\<close>: three Python integers from exactly 16 bytes; any other
  length raises \<^verbatim>\<open>struct.error\<close>, whose text is the \<open>Inl\<close> value.
\<close>

definition struct_unpack_iiq :: "byte list \<Rightarrow> string + (int \<times> int \<times> int)" where
  "struct_unpack_iiq b =
     (if length b \<noteq> 16 then Inl ''unpack requires a buffer of 16 bytes''
      else Inr (int32_of_bytes (take 4 b),
                int32_of_bytes (take 4 (drop 4 b)),
                int64_of_bytes (take 8 (drop 8 b))))"

text \<open>Python's \<^verbatim>\<open>str(n)\<close> of an integer, as used by the f-strings.\<close>

fun str_nat :: "nat \<Rightarrow> string" where
  "str_nat n =
     (if n < 10 then [''0123456789'' ! n]
      else str_nat (n div 10) @ [''0123456789'' ! (n mod 10)])"

declare str_nat.simps [simp del]

definition str_int :: "int \<Rightarrow> string" where
  "str_int i = (if i < 0 then CHR ''-'' # str_nat (nat (- i)) else str_nat (nat i))"

section \<open>The data-type registry\<close>

text \<open>\<^verbatim>\<open>DATA_TYPE_NAMES\<close> (the same dictionary in the reader and in the scanner).\<close>

definition DATA_TYPE_NAMES :: "int \<rightharpoonup> string" where
  "DATA_TYPE_NAMES = map_of
     [(0, ''AnyStruct''), (1, ''Bit''), (2, ''SByte''), (3, ''Byte''),
      (4, ''Int16''), (5, ''UInt16''), (6, ''Int32''), (7, ''UInt32''),
      (8, ''Int64''), (9, ''UInt64''), (10, ''Single''), (11, ''Double''),
      (12, ''DateTime''), (13, ''UnixSeconds''),
      (14, ''Int24AsInt64''), (15, ''Int40AsInt64''), (16, ''Int48AsInt64''),
      (17, ''Int56AsInt64''), (18, ''UInt24AsInt64''), (19, ''UInt40AsInt64''),
      (20, ''UInt48AsInt64''), (21, ''UInt56AsInt64'')]"

text \<open>The numpy element types used by the reader, with numpy's \<^verbatim>\<open>itemsize\<close>.\<close>

datatype np_dtype =
    np_int8 | np_uint8 | np_int16 | np_uint16 | np_int32 | np_uint32
  | np_int64 | np_uint64 | np_float32 | np_float64 | datetime64_ns

fun itemsize :: "np_dtype \<Rightarrow> nat" where
  "itemsize np_int8 = 1"
| "itemsize np_uint8 = 1"
| "itemsize np_int16 = 2"
| "itemsize np_uint16 = 2"
| "itemsize np_int32 = 4"
| "itemsize np_uint32 = 4"
| "itemsize np_int64 = 8"
| "itemsize np_uint64 = 8"
| "itemsize np_float32 = 4"
| "itemsize np_float64 = 8"
| "itemsize datetime64_ns = 8"

text \<open>\<^verbatim>\<open>DTYPE_MAP\<close> of the reader: only the standard types.\<close>

definition DTYPE_MAP :: "int \<rightharpoonup> np_dtype" where
  "DTYPE_MAP = map_of
     [(2, np_int8), (3, np_uint8), (4, np_int16), (5, np_uint16),
      (6, np_int32), (7, np_uint32), (8, np_int64), (9, np_uint64),
      (10, np_float32), (11, np_float64), (12, np_int64), (13, np_int32)]"

text \<open>\<^verbatim>\<open>ODD_BYTE_TYPES\<close> of the reader and \<^verbatim>\<open>ODD_BYTE_DT\<close> of the scanner.\<close>

definition ODD_BYTE_TYPES :: "int set" where
  "ODD_BYTE_TYPES = {14, 15, 16, 17, 18, 19, 20, 21}"

definition ODD_BYTE_DT :: "int set" where
  "ODD_BYTE_DT = {14, 15, 16, 17, 18, 19, 20, 21}"

text \<open>\<^verbatim>\<open>ELEM_WIDTH_BYTES\<close> and \<^verbatim>\<open>ODD_FALLBACK_WIDTH\<close> of the scanner.\<close>

definition ELEM_WIDTH_BYTES :: "int \<rightharpoonup> int" where
  "ELEM_WIDTH_BYTES = map_of
     [(1, 1), (2, 1), (3, 1), (4, 2), (5, 2), (6, 4), (7, 4), (8, 8), (9, 8),
      (10, 4), (11, 8), (12, 8), (13, 4),
      (14, 3), (15, 5), (16, 6), (17, 7), (18, 3), (19, 5), (20, 6), (21, 7)]"

definition ODD_FALLBACK_WIDTH :: "int \<rightharpoonup> int" where
  "ODD_FALLBACK_WIDTH = map_of
     [(14, 4), (18, 4), (15, 8), (16, 8), (17, 8), (19, 8), (20, 8), (21, 8)]"

definition HEADER_SIZE :: nat where
  "HEADER_SIZE = 16"

definition LISTMMF_HEADER_SIZE :: nat where
  "LISTMMF_HEADER_SIZE = 16"

section \<open>The file system\<close>

text \<open>
  What the scripts observe of the file system: the regular files with their bytes, and
  the directories with the names of their entries in the order in which the directory is
  iterated.  A path is the string that \<^verbatim>\<open>str(path)\<close> gives.  Column files are regular
  files: a directory that carries a column file's name is outside this model, and so are
  permission and device errors.
\<close>

record filesystem =
  files :: "path \<rightharpoonup> byte list"
  listdir :: "path \<rightharpoonup> string list"

definition path_exists :: "filesystem \<Rightarrow> path \<Rightarrow> bool" where
  "path_exists fs p = (files fs p \<noteq> None)"

text \<open>\<^verbatim>\<open>directory / name\<close> of pathlib and \<^verbatim>\<open>os.path.join(root, fn)\<close> on POSIX.\<close>

definition path_join :: "path \<Rightarrow> string \<Rightarrow> path" where
  "path_join a b =
     (if b \<noteq> [] \<and> hd b = CHR ''/'' then b
      else if a = [] \<or> last a = CHR ''/'' then a @ b
      else a @ ''/'' @ b)"

section \<open>listmmf_reader.py\<close>

record ListMmfHeader =
  version :: int
  datatype' :: int
  datatype_name :: string
  count :: int

datatype ListMmfReadError = ListMmfReadError string

definition read_header :: "filesystem \<Rightarrow> path \<Rightarrow> ListMmfReadError + ListMmfHeader" where
  "read_header fs filepath =
     (case files fs filepath of
        None \<Rightarrow> Inl (ListMmfReadError (''File not found: '' @ filepath))
      | Some content \<Rightarrow>
          if length content < HEADER_SIZE
          then Inl (ListMmfReadError (''File too small (< 16 bytes): '' @ filepath))
          else (case struct_unpack_iiq (take HEADER_SIZE content) of
                  Inl e \<Rightarrow> Inl (ListMmfReadError
                             (''Failed to read header from '' @ filepath @ '': '' @ e))
                | Inr (v, d, c) \<Rightarrow>
                    Inr \<lparr>version = v, datatype' = d,
                         datatype_name =
                           (case DATA_TYPE_NAMES d of
                              Some n \<Rightarrow> n
                            | None \<Rightarrow> ''Unknown('' @ str_int d @ '')''),
                         count = c\<rparr>))"

text \<open>
  A numpy array: its element type and its elements, each as the little-endian bytes that
  numpy stores (a \<^verbatim>\<open>datetime64[ns]\<close> element is stored as an int64).
\<close>

record ndarray =
  dtype :: np_dtype
  items :: "byte list list"

fun chunks :: "nat \<Rightarrow> nat \<Rightarrow> byte list \<Rightarrow> byte list list" where
  "chunks w 0 bs = []"
| "chunks w (Suc n) bs = take w bs # chunks w n (drop w bs)"

text \<open>
  \<^verbatim>\<open>np.memmap(filepath, dtype=dtype, mode='r', offset=HEADER_SIZE, shape=(count,))\<close>:
  it raises for a negative count and for a file shorter than
  \<open>16 + count * itemsize\<close> bytes (the text of the exception depends on the numpy version;
  the one given here is indicative), and otherwise views \<open>count\<close> elements after the header.
\<close>

definition np_memmap :: "filesystem \<Rightarrow> path \<Rightarrow> np_dtype \<Rightarrow> int \<Rightarrow> string + ndarray" where
  "np_memmap fs filepath dt n =
     (case files fs filepath of
        None \<Rightarrow> Inl ''No such file or directory''
      | Some content \<Rightarrow>
          if n < 0 then Inl ''negative dimensions are not allowed''
          else if int (length content) < int HEADER_SIZE + n * int (itemsize dt)
          then Inl ''mmap length is greater than file size''
          else Inr \<lparr>dtype = dt,
                    items = chunks (itemsize dt) (nat n) (drop HEADER_SIZE content)\<rparr>)"

text \<open>
  \<^verbatim>\<open>read_listmmf\<close>.  With \<^verbatim>\<open>copy=True\<close> the same elements are copied into memory, so
  both modes return the same array value.
\<close>

definition read_listmmf :: "filesystem \<Rightarrow> path \<Rightarrow> bool \<Rightarrow> ListMmfReadError + ndarray" where
  "read_listmmf fs filepath copy =
     (case read_header fs filepath of
        Inl e \<Rightarrow> Inl e
      | Inr header \<Rightarrow>
          if datatype' header \<in> ODD_BYTE_TYPES
          then Inl (ListMmfReadError
                 (''Odd-byte type '' @ datatype_name header @ '' is not supported. ''
                  @ ''Consider exporting from C# to a standard format first.''))
          else if datatype' header = 0
          then Inl (ListMmfReadError ''Cannot read AnyStruct files (DataType=0)'')
          else if datatype' header = 1
          then Inl (ListMmfReadError
                 (''BitArray files require special handling (not yet implemented). ''
                  @ ''Use the C# library or implement bit unpacking.''))
          else (case DTYPE_MAP (datatype' header) of
                  None \<Rightarrow> Inl (ListMmfReadError
                             (''Unsupported DataType: '' @ datatype_name header))
                | Some dt \<Rightarrow>
                    (case np_memmap fs filepath dt (count header) of
                       Inl e \<Rightarrow> Inl (ListMmfReadError
                                  (''Failed to read data from '' @ filepath @ '': '' @ e))
                     | Inr data \<Rightarrow> Inr data)))"

text \<open>
  \<^verbatim>\<open>convert_datetime\<close>: \<^verbatim>\<open>(ticks - DOTNET_TO_UNIX_TICKS) * 100\<close> on an int64 array is
  numpy arithmetic in int64, which wraps around silently; \<^verbatim>\<open>astype('datetime64[ns]')\<close>
  keeps the 64 bits and reads them as nanoseconds since the Unix epoch, the smallest
  int64 being "not a time".
\<close>

definition DOTNET_TO_UNIX_TICKS :: int where
  "DOTNET_TO_UNIX_TICKS = 621355968000000000"

definition unix_ns :: "64 word \<Rightarrow> 64 word" where
  "unix_ns t = (t - word_of_int DOTNET_TO_UNIX_TICKS) * 100"

definition convert_datetime :: "ndarray \<Rightarrow> ndarray" where
  "convert_datetime ticks =
     \<lparr>dtype = datetime64_ns,
      items = map (\<lambda>bs. bytes_of_word64 (unix_ns (word64_of_bytes bs))) (items ticks)\<rparr>"

datatype datetime64 = NaT | Ns int

definition datetime64_of_bytes :: "byte list \<Rightarrow> datetime64" where
  "datetime64_of_bytes bs =
     (if int64_of_bytes bs = - (2 ^ 63) then NaT else Ns (int64_of_bytes bs))"

text \<open>
  \<^verbatim>\<open>convert_unixseconds\<close>: int32 seconds to \<^verbatim>\<open>datetime64[s]\<close> and then to
  \<^verbatim>\<open>datetime64[ns]\<close>, a multiplication by \<open>10 ^ 9\<close> in int64.
\<close>

definition convert_unixseconds :: "ndarray \<Rightarrow> ndarray" where
  "convert_unixseconds seconds =
     \<lparr>dtype = datetime64_ns,
      items = map (\<lambda>bs. bytes_of_word64 (word_of_int (int32_of_bytes bs) * 1000000000))
                (items seconds)\<rparr>"

definition read_mmf :: "filesystem \<Rightarrow> path \<Rightarrow> bool \<Rightarrow> ListMmfReadError + ndarray" where
  "read_mmf fs filepath as_datetime =
     (case read_listmmf fs filepath False of
        Inl e \<Rightarrow> Inl e
      | Inr data \<Rightarrow>
          if as_datetime
          then (case read_header fs filepath of
                  Inl e \<Rightarrow> Inl e
                | Inr header \<Rightarrow>
                    if datatype' header = 12 then Inr (convert_datetime data)
                    else if datatype' header = 13 then Inr (convert_unixseconds data)
                    else Inr data)
          else Inr data)"

section \<open>scan_listmmf_stats.py\<close>

record FileInfo =
  path :: string
  size_bytes :: int
  version :: int
  data_type :: int
  count :: int

text \<open>
  The scanner's own \<^verbatim>\<open>read_header\<close> (named \<open>scan_read_header\<close> here, the reader has a
  function of the same name).  It returns what it printed on standard error and the
  \<^verbatim>\<open>FileInfo\<close>, or \<open>None\<close>.  Every exception raised inside is caught by its
  \<^verbatim>\<open>except Exception\<close>; \<^verbatim>\<open>os.path.getsize\<close> raises for a path that is not there (the
  text of the operating system's error is indicative).
\<close>

definition scan_read_header :: "filesystem \<Rightarrow> path \<Rightarrow> string list \<times> FileInfo option" where
  "scan_read_header fs p =
     (case files fs p of
        None \<Rightarrow>
          ([''ERROR: Failed reading header for '' @ p @ '': ''
            @ ''[Errno 2] No such file or directory''], None)
      | Some content \<Rightarrow>
          if length content < LISTMMF_HEADER_SIZE
          then ([''WARN: File too small for header: '' @ p], None)
          else (case struct_unpack_iiq (take LISTMMF_HEADER_SIZE content) of
                  Inl e \<Rightarrow> ([''ERROR: Failed reading header for '' @ p @ '': '' @ e], None)
                | Inr (v, d, c) \<Rightarrow>
                    ([], Some \<lparr>path = p, size_bytes = int (length content),
                               version = v, data_type = d, count = c\<rparr>)))"

text \<open>
  A \<^verbatim>\<open>collections.Counter\<close>: a dictionary in insertion order whose missing keys read
  as 0; \<^verbatim>\<open>c[k] += v\<close> is \<open>counter_add\<close>.
\<close>

type_synonym counter = "(int \<times> int) list"

definition counter_get :: "counter \<Rightarrow> int \<Rightarrow> int" where
  "counter_get c k = (case map_of c k of None \<Rightarrow> 0 | Some v \<Rightarrow> v)"

definition counter_add :: "int \<Rightarrow> int \<Rightarrow> counter \<Rightarrow> counter" where
  "counter_add k v c = AList.update k (counter_get c k + v) c"

text \<open>
  The local variables of \<^verbatim>\<open>scan_dir\<close>.  The dictionary it returns holds the first
  eight; \<open>results\<close> stays local and \<open>stderr\<close> is what was printed.
\<close>

record scan_state =
  total_files :: int
  total_bytes :: int
  by_dtype_files :: counter
  by_dtype_items :: counter
  by_dtype_bytes :: counter
  odd_files :: int
  odd_saved_bytes_total :: int
  odd_saved_bytes_by_dtype :: counter
  results :: "FileInfo list"
  stderr :: "string list"

definition scan_init :: scan_state where
  "scan_init =
     \<lparr>total_files = 0, total_bytes = 0, by_dtype_files = [], by_dtype_items = [],
      by_dtype_bytes = [], odd_files = 0, odd_saved_bytes_total = 0,
      odd_saved_bytes_by_dtype = [], results = [], stderr = []\<rparr>"

datatype py_exception = KeyError int

text \<open>The body of the loop of \<^verbatim>\<open>scan_dir\<close> after a header has been read.\<close>

definition count_file :: "scan_state \<Rightarrow> FileInfo \<Rightarrow> scan_state" where
  "count_file st info =
     st\<lparr>total_files := total_files st + 1,
        total_bytes := total_bytes st + size_bytes info,
        by_dtype_files := counter_add (data_type info) 1 (by_dtype_files st),
        by_dtype_items := counter_add (data_type info) (max 0 (count info)) (by_dtype_items st),
        by_dtype_bytes := counter_add (data_type info) (size_bytes info) (by_dtype_bytes st)\<rparr>"

definition count_odd :: "scan_state \<Rightarrow> FileInfo \<Rightarrow> py_exception + scan_state" where
  "count_odd st info =
     (let dt = data_type info in
      if dt \<in> ODD_BYTE_DT
      then (let st1 = st\<lparr>odd_files := odd_files st + 1\<rparr>;
                odd = ELEM_WIDTH_BYTES dt
            in case ODD_FALLBACK_WIDTH dt of
                 None \<Rightarrow> Inl (KeyError dt)
               | Some fb \<Rightarrow>
                   (case odd of
                      None \<Rightarrow> Inr st1
                    | Some w \<Rightarrow>
                        if count info \<ge> 0
                        then (let saved = (fb - w) * count info in
                              if saved > 0
                              then Inr (st1\<lparr>odd_saved_bytes_total :=
                                              odd_saved_bytes_total st1 + saved,
                                            odd_saved_bytes_by_dtype :=
                                              counter_add dt saved
                                                (odd_saved_bytes_by_dtype st1)\<rparr>)
                              else Inr st1)
                        else Inr st1))
      else Inr st)"

definition process_file :: "scan_state \<Rightarrow> FileInfo \<Rightarrow> py_exception + scan_state" where
  "process_file st info =
     (case count_odd (count_file st info) info of
        Inl e \<Rightarrow> Inl e
      | Inr st' \<Rightarrow> Inr (st'\<lparr>results := results st' @ [info]\<rparr>))"

text \<open>\<^verbatim>\<open>str.lower\<close> on ASCII letters and \<^verbatim>\<open>str.endswith\<close>.\<close>

definition lower_char :: "char \<Rightarrow> char" where
  "lower_char c =
     (case map_of (zip ''ABCDEFGHIJKLMNOPQRSTUVWXYZ'' ''abcdefghijklmnopqrstuvwxyz'') c of
        Some l \<Rightarrow> l
      | None \<Rightarrow> c)"

definition lower :: "string \<Rightarrow> string" where
  "lower s = map lower_char s"

definition endswith :: "string \<Rightarrow> string \<Rightarrow> bool" where
  "endswith s t = (length t \<le> length s \<and> drop (length s - length t) s = t)"

definition scan_file :: "filesystem \<Rightarrow> path \<Rightarrow> scan_state \<Rightarrow> string \<Rightarrow> py_exception + scan_state" where
  "scan_file fs root st fn =
     (if \<not> endswith (lower fn) ''.bt'' then Inr st
      else (case scan_read_header fs (path_join root fn) of
              (msgs, None) \<Rightarrow> Inr (st\<lparr>stderr := stderr st @ msgs\<rparr>)
            | (msgs, Some info) \<Rightarrow> process_file (st\<lparr>stderr := stderr st @ msgs\<rparr>) info))"

fun scan_files :: "filesystem \<Rightarrow> path \<Rightarrow> scan_state \<Rightarrow> string list \<Rightarrow> py_exception + scan_state" where
  "scan_files fs root st [] = Inr st"
| "scan_files fs root st (fn # fns) =
     (case scan_file fs root st fn of
        Inl e \<Rightarrow> Inl e
      | Inr st' \<Rightarrow> scan_files fs root st' fns)"

fun scan_walk :: "filesystem \<Rightarrow> scan_state \<Rightarrow> (path \<times> string list) list \<Rightarrow> py_exception + scan_state" where
  "scan_walk fs st [] = Inr st"
| "scan_walk fs st ((root, fns) # rest) =
     (case scan_files fs root st fns of
        Inl e \<Rightarrow> Inl e
      | Inr st' \<Rightarrow> scan_walk fs st' rest)"

text \<open>
  \<^verbatim>\<open>scan_dir\<close>.  Walking the directory tree is the library's \<^verbatim>\<open>os.walk\<close>; \<open>walk\<close> is
  what it yields for \<^verbatim>\<open>base_dir\<close>: each directory with the names of the files in it.
\<close>

definition scan_dir :: "filesystem \<Rightarrow> (path \<times> string list) list \<Rightarrow> py_exception + scan_state" where
  "scan_dir fs walk = scan_walk fs scan_init walk"

section \<open>mmf_to_parquet.py\<close>

text \<open>
  \<^verbatim>\<open>find_mmf_files\<close>.  The dictionary it returns is an association list in insertion
  order; assigning to a key that is already there keeps the key's place.  The result is
  the \<^verbatim>\<open>ValueError\<close>'s text, or what was printed on standard error and the dictionary.
\<close>

fun try_extensions :: "filesystem \<Rightarrow> path \<Rightarrow> string \<Rightarrow> string list \<Rightarrow> path option" where
  "try_extensions fs directory col [] = None"
| "try_extensions fs directory col (ext # exts) =
     (let filepath = path_join directory (col @ ext) in
      if path_exists fs filepath then Some filepath
      else try_extensions fs directory col exts)"

definition not_found_warning :: "string \<Rightarrow> path \<Rightarrow> string" where
  "not_found_warning col directory =
     ''WARNING: Column '' @ [CHR 0x27] @ col @ [CHR 0x27] @ '' not found in '' @ directory"

definition find_column ::
  "filesystem \<Rightarrow> path \<Rightarrow> string list \<times> (string \<times> path) list \<Rightarrow> string \<Rightarrow>
   string list \<times> (string \<times> path) list" where
  "find_column fs directory acc col =
     (case acc of (err, found) \<Rightarrow>
        (let found' = (case try_extensions fs directory col [''.mmf'', ''.bt''] of
                         Some filepath \<Rightarrow> AList.update col filepath found
                       | None \<Rightarrow> found)
         in if col \<notin> fst ` set found'
            then (err @ [not_found_warning col directory], found')
            else (err, found')))"

text \<open>
  \<^verbatim>\<open>Path.stem\<close> of a name that matched \<^verbatim>\<open>*<ext>\<close>: the name without the extension,
  and the whole name when nothing but the extension is left.
\<close>

definition stem :: "string \<Rightarrow> string \<Rightarrow> string" where
  "stem ext fname =
     (let s = take (length fname - length ext) fname in if s = [] then fname else s)"

definition glob_ext ::
  "path \<Rightarrow> string list \<Rightarrow> (string \<times> path) list \<Rightarrow> string \<Rightarrow> (string \<times> path) list" where
  "glob_ext directory entries found ext =
     fold (\<lambda>fname acc. AList.update (stem ext fname) (path_join directory fname) acc)
       (filter (\<lambda>fname. endswith fname ext) entries) found"

text \<open>\<^verbatim>\<open>directory.is_dir()\<close> holds when the file system lists the directory.\<close>

definition find_mmf_files ::
  "filesystem \<Rightarrow> path \<Rightarrow> string list option \<Rightarrow> string + (string list \<times> (string \<times> path) list)" where
  "find_mmf_files fs directory column_names =
     (case listdir fs directory of
        None \<Rightarrow> Inl (''Not a directory: '' @ directory)
      | Some entries \<Rightarrow>
          (case column_names of
             Some (c # cs) \<Rightarrow>
               Inr (fold (\<lambda>col acc. find_column fs directory acc col) (c # cs) ([], []))
           | _ \<Rightarrow>
               Inr ([], fold (\<lambda>ext acc. glob_ext directory entries acc ext)
                          [''.mmf'', ''.bt''] [])))"

text \<open>
  A pandas \<^verbatim>\<open>Series\<close> built by \<^verbatim>\<open>pd.Series(data, name=column_name)\<close>: its index is the
  default one, the positions \<open>0 ..< len\<close>.
\<close>

record Series =
  name :: string
  data :: ndarray

definition len :: "Series \<Rightarrow> nat" where
  "len series = length (items (data series))"

definition read_column :: "filesystem \<Rightarrow> path \<Rightarrow> string \<Rightarrow> ListMmfReadError + Series" where
  "read_column fs filepath column_name =
     (case read_header fs filepath of
        Inl e \<Rightarrow> Inl e
      | Inr header \<Rightarrow>
          (case read_mmf fs filepath
                  (lower column_name \<in> set [''timestamp'', ''datetime'', ''time'']) of
             Inl e \<Rightarrow> Inl e
           | Inr d \<Rightarrow> Inr \<lparr>name = column_name, data = d\<rparr>))"

text \<open>
  \<^verbatim>\<open>pd.DataFrame(columns)\<close> of a dictionary of Series, by the documented behaviour of
  pandas: the index of the frame is the union of the indexes of the Series, here the
  positions below the greatest length; a Series that is shorter is reindexed, which fills
  the positions it does not have with the missing value of the column (\<^verbatim>\<open>NaN\<close>, and
  \<^verbatim>\<open>NaT\<close> in a \<^verbatim>\<open>datetime64[ns]\<close> column) after promoting an integer column to
  \<^verbatim>\<open>float64\<close>, the type that has a \<^verbatim>\<open>NaN\<close>.  A cell is \<open>None\<close> when it is missing and
  \<open>Some bs\<close> for the element that the Series stored as \<open>bs\<close>; the conversion of an
  integer to \<^verbatim>\<open>float64\<close> in a promoted column is floating point and is not computed.
\<close>

fun promote :: "np_dtype \<Rightarrow> np_dtype" where
  "promote np_float32 = np_float32"
| "promote np_float64 = np_float64"
| "promote datetime64_ns = datetime64_ns"
| "promote _ = np_float64"

text \<open>
  The missing value that a column of a given type can hold: \<^verbatim>\<open>NaN\<close> in the floating
  types, \<^verbatim>\<open>NaT\<close> in \<^verbatim>\<open>datetime64[ns]\<close>, and none in the integer types.
\<close>

fun missing_value :: "np_dtype \<Rightarrow> string option" where
  "missing_value np_float32 = Some ''NaN''"
| "missing_value np_float64 = Some ''NaN''"
| "missing_value datetime64_ns = Some ''NaT''"
| "missing_value _ = None"

record df_column =
  col_dtype :: np_dtype
  cells :: "byte list option list"

record DataFrame =
  nrows :: nat
  df_columns :: "(string \<times> df_column) list"

definition reindex :: "nat \<Rightarrow> ndarray \<Rightarrow> df_column" where
  "reindex n a =
     (if length (items a) = n
      then \<lparr>col_dtype = dtype a, cells = map Some (items a)\<rparr>
      else \<lparr>col_dtype = promote (dtype a),
            cells = map Some (items a) @ replicate (n - length (items a)) None\<rparr>)"

definition pd_DataFrame :: "(string \<times> Series) list \<Rightarrow> DataFrame" where
  "pd_DataFrame columns =
     (let n = fold max (map (\<lambda>(col_name, series). len series) columns) 0 in
      \<lparr>nrows = n,
       df_columns = map (\<lambda>(col_name, series). (col_name, reindex n (data series))) columns\<rparr>)"

text \<open>The format \<^verbatim>\<open>{length:,}\<close>: decimal digits in groups of three.\<close>

fun group3 :: "string \<Rightarrow> string" where
  "group3 (a # b # c # d # ds) = a # b # c # CHR '','' # group3 (d # ds)"
| "group3 ds = ds"

definition str_thousands :: "nat \<Rightarrow> string" where
  "str_thousands n = rev (group3 (rev (str_nat n)))"

text \<open>
  \<^verbatim>\<open>convert_to_parquet\<close>.  It ends in a \<^verbatim>\<open>ValueError\<close>, in \<^verbatim>\<open>sys.exit(1)\<close>, or it
  returns the frame; the lines printed on standard error come with the outcome.  Writing
  the frame with \<^verbatim>\<open>to_parquet\<close> and the report of the file sizes belong to the external
  writer and are taken to succeed, so the output path, the codec and the index flag do
  not appear.
\<close>

datatype abort = ValueError string | SystemExit int

fun read_columns ::
  "filesystem \<Rightarrow> (string \<times> path) list \<Rightarrow> (string \<times> Series) list \<times> nat \<Rightarrow>
   string + ((string \<times> Series) list \<times> nat)" where
  "read_columns fs [] acc = Inr acc"
| "read_columns fs ((col_name, filepath) # rest) acc =
     (case acc of (columns, max_length) \<Rightarrow>
        (case read_column fs filepath col_name of
           Inl (ListMmfReadError e) \<Rightarrow> Inl (''ERROR reading '' @ col_name @ '': '' @ e)
         | Inr series \<Rightarrow>
             read_columns fs rest
               (AList.update col_name series columns, max max_length (len series))))"

definition length_warning :: "(string \<times> Series) list \<Rightarrow> string list" where
  "length_warning columns =
     (let lengths = map (\<lambda>(col_name, series). (col_name, len series)) columns in
      if length (remdups (map snd lengths)) > 1
      then [''WARNING: Columns have different lengths:'']
           @ map (\<lambda>(col_name, l). ''  '' @ col_name @ '': '' @ str_thousands l) lengths
           @ [''Creating DataFrame with mismatched lengths (NaN will be filled).'']
      else [])"

definition convert_to_parquet ::
  "filesystem \<Rightarrow> (string \<times> path) list \<Rightarrow> string list \<times> (abort + DataFrame)" where
  "convert_to_parquet fs fls =
     (if fls = [] then ([], Inl (ValueError ''No files to convert''))
      else (case read_columns fs fls ([], 0) of
              Inl line \<Rightarrow> ([line], Inl (SystemExit 1))
            | Inr (columns, max_length) \<Rightarrow>
                (length_warning columns, Inr (pd_DataFrame columns))))"

section \<open>The header codec of the specification\<close>

text \<open>Modelled from the spec: \<^verbatim>\<open>encode(Header) -> bytes[16]\<close> of the HeaderCodec, which
  the sources do not contain (they only read headers).  The specification gives the layout:
  little-endian, \<open>int32 version\<close> at offset 0, \<open>int32 dataType\<close> at offset 4,
  \<open>int64 count\<close> at offset 8, in two's complement; \<open>h\<close> is the triple
  \<open>(version, dataType, count)\<close>.
\<close>

definition encode :: "int \<times> int \<times> int \<Rightarrow> byte list" where
  "encode h =
     (case h of (v, d, c) \<Rightarrow>
        nat_to_le 4 (nat (v mod 2 ^ 32))
        @ nat_to_le 4 (nat (d mod 2 ^ 32))
        @ nat_to_le 8 (nat (c mod 2 ^ 64)))"

section \<open>Predicates of the properties\<close>

text \<open>\<^verbatim>\<open>sum(c.values())\<close> of a counter.\<close>

definition counter_total :: "counter \<Rightarrow> int" where
  "counter_total c = sum_list (map snd c)"

text \<open>
  The agreement of the totals of a scan with its breakdown by type and with the list
  of the files that were counted.
\<close>

definition scan_invariant :: "scan_state \<Rightarrow> bool" where
  "scan_invariant st =
     (total_files st = counter_total (by_dtype_files st) \<and>
      total_bytes st = counter_total (by_dtype_bytes st) \<and>
      distinct (map fst (by_dtype_files st)) \<and>
      distinct (map fst (by_dtype_bytes st)) \<and>
      total_files st = int (length (results st)) \<and>
      total_bytes st = sum_list (map size_bytes (results st)) \<and>
      (\<forall>dt. counter_get (by_dtype_files st) dt =
              int (length (filter (\<lambda>info. data_type info = dt) (results st)))) \<and>
      (\<forall>dt. counter_get (by_dtype_bytes st) dt =
              sum_list (map size_bytes (filter (\<lambda>info. data_type info = dt) (results st)))))"

text \<open>
  A name that the scan looks at, a file that \<^verbatim>\<open>read_header\<close> of the scanner gives up on,
  and a walk without such files.
\<close>

definition is_bt :: "string \<Rightarrow> bool" where
  "is_bt fn = endswith (lower fn) ''.bt''"

definition bad_file :: "filesystem \<Rightarrow> path \<Rightarrow> string \<Rightarrow> bool" where
  "bad_file fs root fn = (is_bt fn \<and> snd (scan_read_header fs (path_join root fn)) = None)"

definition skip_bad :: "filesystem \<Rightarrow> (path \<times> string list) list \<Rightarrow> (path \<times> string list) list" where
  "skip_bad fs walk = map (\<lambda>(root, fns). (root, filter (\<lambda>fn. \<not> bad_file fs root fn) fns)) walk"

text \<open>
  What the scan reads from one name of the walk, and the headers that it reads from the
  whole walk, in the order of the walk.
\<close>

definition decoded :: "filesystem \<Rightarrow> path \<Rightarrow> string \<Rightarrow> FileInfo option" where
  "decoded fs root fn =
     (if is_bt fn then snd (scan_read_header fs (path_join root fn)) else None)"

definition decoded_infos :: "filesystem \<Rightarrow> (path \<times> string list) list \<Rightarrow> FileInfo list" where
  "decoded_infos fs walk =
     concat (map (\<lambda>(root, fns). List.map_filter (decoded fs root) fns) walk)"

text \<open>A small corpus: three column files, one truncated file and one name without a file.\<close>

definition example_fs :: filesystem where
  "example_fs =
     \<lparr>files = [''d/a.bt'' \<mapsto> [1, 0, 0, 0, 14, 0, 0, 0, 232, 3, 0, 0, 0, 0, 0, 0],
               ''d/b.BT'' \<mapsto> [1, 2, 3],
               ''d/c.txt'' \<mapsto> [],
               ''d/f.bt'' \<mapsto> [1, 0, 0, 0, 14, 0, 0, 0, 2, 0, 0, 0, 0, 0, 0, 0, 1, 2, 3, 4, 5, 6],
               ''d/g.bt'' \<mapsto> [1, 0, 0, 0, 8, 0, 0, 0, 1, 0, 0, 0, 0, 0, 0, 0, 1, 2, 3, 4, 5, 6, 7, 8]],
      listdir = Map.empty\<rparr>"

definition example_walk :: "(path \<times> string list) list" where
  "example_walk = [(''d'', [''a.bt'', ''b.BT'', ''c.txt'', ''e.bt'', ''f.bt'', ''g.bt''])]"

definition example_result :: scan_state where
  "example_result =
     \<lparr>total_files = 3, total_bytes = 62, by_dtype_files = [(14, 2), (8, 1)],
      by_dtype_items = [(14, 1002), (8, 1)],
      by_dtype_bytes = [(14, 38), (8, 24)], odd_files = 2,
      odd_saved_bytes_total = 1002,
      odd_saved_bytes_by_dtype = [(14, 1002)],
      results =
        [\<lparr>path = ''d/a.bt'', size_bytes = 16, version = 1, data_type = 14, count = 1000\<rparr>,
         \<lparr>path = ''d/f.bt'', size_bytes = 22, version = 1, data_type = 14, count = 2\<rparr>,
         \<lparr>path = ''d/g.bt'', size_bytes = 24, version = 1, data_type = 8, count = 1\<rparr>],
      stderr =
        [''WARN: File too small for header: d/b.BT'',
         ''ERROR: Failed reading header for d/e.bt: [Errno 2] No such file or directory'']\<rparr>"

text \<open>A directory in which one column has both extensions, one has only \<^verbatim>\<open>.bt\<close> and one is absent.\<close>

definition example_dir :: filesystem where
  "example_dir =
     \<lparr>files = [''d/Close.mmf'' \<mapsto> [], ''d/Close.bt'' \<mapsto> [], ''d/Open.bt'' \<mapsto> []],
      listdir = [''d'' \<mapsto> [''Close.mmf'', ''Close.bt'', ''Open.bt'']]\<rparr>"

text \<open>Two byte columns, of 10 and of 7 elements, and the Series that are read from them.\<close>

definition example_columns_fs :: filesystem where
  "example_columns_fs =
     \<lparr>files = [''d/A.bt'' \<mapsto> [1, 0, 0, 0, 3, 0, 0, 0, 10, 0, 0, 0, 0, 0, 0, 0,
                              1, 2, 3, 4, 5, 6, 7, 8, 9, 10],
               ''d/B.bt'' \<mapsto> [1, 0, 0, 0, 3, 0, 0, 0, 7, 0, 0, 0, 0, 0, 0, 0,
                              11, 12, 13, 14, 15, 16, 17]],
      listdir = [''d'' \<mapsto> [''A.bt'', ''B.bt'']]\<rparr>"

definition example_columns :: "(string \<times> Series) list" where
  "example_columns =
     [(''A'', \<lparr>name = ''A'',
               data = \<lparr>dtype = np_uint8,
                       items = [[1], [2], [3], [4], [5], [6], [7], [8], [9], [10]]\<rparr>\<rparr>),
      (''B'', \<lparr>name = ''B'',
               data = \<lparr>dtype = np_uint8,
                       items = [[11], [12], [13], [14], [15], [16], [17]]\<rparr>\<rparr>)]"

section \<open>Little-endian bytes\<close>

lemma length_nat_to_le: "length (nat_to_le n x) = n"
  by (induction n arbitrary: x) simp_all

lemma le_to_nat_nat_to_le: "le_to_nat (nat_to_le n x) = x mod 256 ^ n"
proof (induction n arbitrary: x)
  case 0
  then show ?case by simp
next
  case (Suc n)
  have "unat (word_of_nat (x mod 256) :: byte) = x mod 256"
    by (simp add: unat_of_nat)
  then show ?case
    using Suc by (simp add: mod_mult2_eq)
qed

lemma word64_of_bytes_of_word64: "word64_of_bytes (bytes_of_word64 w) = w"
proof -
  have "unat w < 2 ^ 64"
    using unsigned_less [of w] by simp
  then have "unat w mod 256 ^ 8 = unat w" by simp
  then show ?thesis
    by (simp add: word64_of_bytes_def bytes_of_word64_def le_to_nat_nat_to_le)
qed

section \<open>Ticks to nanoseconds\<close>

lemma sint_unix_ns:
  "sint (unix_ns w) = signed_take_bit 63 ((sint w - DOTNET_TO_UNIX_TICKS) * 100)"
proof -
  have "unix_ns w = word_of_int ((sint w - DOTNET_TO_UNIX_TICKS) * 100)"
    by (simp add: unix_ns_def)
  then show ?thesis
    by (simp only: sint_sbintrunc') simp
qed

lemma int64_convert_item:
  "i < length (items ticks) \<Longrightarrow>
   int64_of_bytes (items (convert_datetime ticks) ! i) =
   signed_take_bit 63 ((int64_of_bytes (items ticks ! i) - DOTNET_TO_UNIX_TICKS) * 100)"
  by (simp add: convert_datetime_def int64_of_bytes_def word64_of_bytes_of_word64 sint_unix_ns)

lemma exact_not_NaT:
  fixes d :: int
  assumes "- (2 ^ 63) \<le> d * 100" "d * 100 < 2 ^ 63"
  shows "signed_take_bit 63 (d * 100) = d * 100" and "d * 100 \<noteq> - (2 ^ 63)"
proof -
  show "signed_take_bit 63 (d * 100) = d * 100"
    using assms by (simp add: signed_take_bit_int_eq_self)
  have "(d * 100) mod 100 = 0" by simp
  moreover have "(- (2 ^ 63) :: int) mod 100 \<noteq> 0" by simp
  ultimately show "d * 100 \<noteq> - (2 ^ 63)" by metis
qed

text \<open>
  C1 (amended).  For an int64 array of ticks, wherever \<open>(t - 621355968000000000) * 100\<close>
  lies within int64, the element that \<^verbatim>\<open>convert_datetime\<close> yields is exactly that number
  of nanoseconds since the Unix epoch; in particular the tick 621355968000000000 gives
  0 ns and 621355968000000000 + 10000000 gives one second.
\<close>

theorem convert_datetime_exact_in_range:
  assumes "i < length (items ticks)"
  shows "(- (2 ^ 63) \<le> (int64_of_bytes (items ticks ! i) - DOTNET_TO_UNIX_TICKS) * 100 \<and>
          (int64_of_bytes (items ticks ! i) - DOTNET_TO_UNIX_TICKS) * 100 < 2 ^ 63 \<longrightarrow>
          datetime64_of_bytes (items (convert_datetime ticks) ! i) =
          Ns ((int64_of_bytes (items ticks ! i) - DOTNET_TO_UNIX_TICKS) * 100)) \<and>
         (int64_of_bytes (items ticks ! i) = 621355968000000000 \<longrightarrow>
          datetime64_of_bytes (items (convert_datetime ticks) ! i) = Ns 0) \<and>
         (int64_of_bytes (items ticks ! i) = 621355968000000000 + 10000000 \<longrightarrow>
          datetime64_of_bytes (items (convert_datetime ticks) ! i) = Ns 1000000000)"
proof -
  let ?t = "int64_of_bytes (items ticks ! i)"
  let ?r = "items (convert_datetime ticks) ! i"
  have r: "int64_of_bytes ?r = signed_take_bit 63 ((?t - DOTNET_TO_UNIX_TICKS) * 100)"
    using assms by (rule int64_convert_item)
  have exact: "datetime64_of_bytes ?r = Ns ((?t - DOTNET_TO_UNIX_TICKS) * 100)"
    if "- (2 ^ 63) \<le> (?t - DOTNET_TO_UNIX_TICKS) * 100"
      and "(?t - DOTNET_TO_UNIX_TICKS) * 100 < 2 ^ 63"
    using exact_not_NaT [OF that] r by (simp add: datetime64_of_bytes_def)
  have zero: "datetime64_of_bytes ?r = Ns 0" if "?t = 621355968000000000"
    using exact that by (simp add: DOTNET_TO_UNIX_TICKS_def)
  have one: "datetime64_of_bytes ?r = Ns 1000000000" if "?t = 621355968000000000 + 10000000"
    using exact that by (simp add: DOTNET_TO_UNIX_TICKS_def)
  show ?thesis
    using exact zero one by blast
qed

text \<open>The two ticks that the claim names, in one array.\<close>

theorem convert_datetime_exact_in_range_witness:
  "datetime64_of_bytes
     (items (convert_datetime
        \<lparr>dtype = np_int64,
         items = [[0, 128, 181, 247, 245, 127, 159, 8], [128, 22, 78, 248, 245, 127, 159, 8]]\<rparr>) ! 0)
   = Ns 0 \<and>
   datetime64_of_bytes
     (items (convert_datetime
        \<lparr>dtype = np_int64,
         items = [[0, 128, 181, 247, 245, 127, 159, 8], [128, 22, 78, 248, 245, 127, 159, 8]]\<rparr>) ! 1)
   = Ns 1000000000"
proof -
  let ?a = "\<lparr>dtype = np_int64,
         items = [[0, 128, 181, 247, 245, 127, 159, 8], [128, 22, 78, 248, 245, 127, 159, 8 :: byte]]\<rparr>"
  have t0: "int64_of_bytes (items ?a ! 0) = 621355968000000000"
    by (simp add: int64_of_bytes_def word64_of_bytes_def)
  have t1: "int64_of_bytes (items ?a ! 1) = 621355968000000000 + 10000000"
    by (simp add: int64_of_bytes_def word64_of_bytes_def)
  have l0: "0 < length (items ?a)" and l1: "1 < length (items ?a)" by simp_all
  show ?thesis
    using convert_datetime_exact_in_range [OF l0] convert_datetime_exact_in_range [OF l1] t0 t1
    by blast
qed

text \<open>
  C1 as stated fails at the tick 0 (the date 0001-01-01): the product is below int64 and
  the array holds a wrapped value.
\<close>

theorem convert_datetime_tick_zero_counterexample:
  "datetime64_of_bytes
     (items (convert_datetime \<lparr>dtype = np_int64, items = [[0, 0, 0, 0, 0, 0, 0, 0]]\<rparr>) ! 0)
   = Ns (- 6795364578871345152) \<and>
   (int64_of_bytes [0, 0, 0, 0, 0, 0, 0, 0] - 621355968000000000) * 100
   = - 62135596800000000000"
  by (simp add: convert_datetime_def datetime64_of_bytes_def int64_of_bytes_def
      word64_of_bytes_of_word64)
    (simp add: word64_of_bytes_def unix_ns_def DOTNET_TO_UNIX_TICKS_def)

lemma exact_range:
  fixes d :: int
  shows "(- (2 ^ 63) \<le> d * 100 \<and> d * 100 < 2 ^ 63) \<longleftrightarrow>
         (- 92233720368547758 \<le> d \<and> d \<le> 92233720368547758)"
proof -
  have e: "(2 :: int) ^ 63 = 9223372036854775808" by simp
  show ?thesis unfolding e by linarith
qed

text \<open>
  C5 (amended).  The conversion is int64 arithmetic that wraps: every element of the result
  is \<open>(t - 621355968000000000) * 100\<close> reduced modulo \<open>2 ^ 64\<close> into the signed range,
  and it is the exact product if and only if
  \<open>- 92233720368547758 \<le> t - 621355968000000000 \<le> 92233720368547758\<close>.
\<close>

theorem convert_datetime_wraps_int64:
  assumes "i < length (items ticks)"
  shows "int64_of_bytes (items (convert_datetime ticks) ! i) =
           ((int64_of_bytes (items ticks ! i) - 621355968000000000) * 100 + 2 ^ 63) mod 2 ^ 64
           - 2 ^ 63 \<and>
         (int64_of_bytes (items (convert_datetime ticks) ! i) =
            (int64_of_bytes (items ticks ! i) - 621355968000000000) * 100 \<longleftrightarrow>
          - 92233720368547758 \<le> int64_of_bytes (items ticks ! i) - 621355968000000000 \<and>
          int64_of_bytes (items ticks ! i) - 621355968000000000 \<le> 92233720368547758)"
proof -
  let ?d = "int64_of_bytes (items ticks ! i) - 621355968000000000"
  have r: "int64_of_bytes (items (convert_datetime ticks) ! i) = signed_take_bit 63 (?d * 100)"
    using int64_convert_item [OF assms] by (simp add: DOTNET_TO_UNIX_TICKS_def)
  have wrap: "signed_take_bit 63 (?d * 100) = (?d * 100 + 2 ^ 63) mod 2 ^ 64 - 2 ^ 63"
    by (simp add: signed_take_bit_eq_take_bit_shift take_bit_eq_mod)
  have "signed_take_bit 63 (?d * 100) = ?d * 100 \<longleftrightarrow>
        - (2 ^ 63) \<le> ?d * 100 \<and> ?d * 100 < 2 ^ 63"
    by (rule signed_take_bit_int_eq_self_iff)
  also have "\<dots> \<longleftrightarrow> - 92233720368547758 \<le> ?d \<and> ?d \<le> 92233720368547758"
    by (rule exact_range)
  finally show ?thesis
    using r wrap by simp
qed

text \<open>One second after the epoch, through the wrapping formula.\<close>

theorem convert_datetime_wraps_int64_witness:
  "int64_of_bytes
     (items (convert_datetime
        \<lparr>dtype = np_int64, items = [[128, 22, 78, 248, 245, 127, 159, 8]]\<rparr>) ! 0)
   = 1000000000"
proof -
  let ?a = "\<lparr>dtype = np_int64, items = [[128, 22, 78, 248, 245, 127, 159, 8 :: byte]]\<rparr>"
  have l0: "0 < length (items ?a)" by simp
  have t0: "int64_of_bytes (items ?a ! 0) = 621355968010000000"
    by (simp add: int64_of_bytes_def word64_of_bytes_def)
  show ?thesis
    using convert_datetime_wraps_int64 [OF l0] t0 by simp
qed

text \<open>
  C5 as stated fails at the greatest int64 tick: the exact product does not fit and the
  result is a negative number of nanoseconds.
\<close>

theorem convert_datetime_int64_max_counterexample:
  "int64_of_bytes [255, 255, 255, 255, 255, 255, 255, 127] = 9223372036854775807 \<and>
   datetime64_of_bytes
     (items (convert_datetime
        \<lparr>dtype = np_int64, items = [[255, 255, 255, 255, 255, 255, 255, 127]]\<rparr>) ! 0)
   = Ns (- 6795364578871345252) \<and>
   (9223372036854775807 - 621355968000000000) * 100 = (860201606885477580700 :: int)"
  by (simp add: convert_datetime_def datetime64_of_bytes_def int64_of_bytes_def
      word64_of_bytes_of_word64)
    (simp add: word64_of_bytes_def unix_ns_def DOTNET_TO_UNIX_TICKS_def)

section \<open>The reader\<close>

lemma read_header_fields:
  assumes "read_header fs filepath = Inr header"
  shows "datatype_name header =
           (case DATA_TYPE_NAMES (datatype' header) of
              Some n \<Rightarrow> n
            | None \<Rightarrow> ''Unknown('' @ str_int (datatype' header) @ '')'')"
  using assms
  by (auto simp: read_header_def split: option.splits if_splits sum.splits prod.splits)

lemma odd_byte_named:
  assumes "d \<in> ODD_BYTE_TYPES"
  shows "\<exists>n. DATA_TYPE_NAMES d = Some n"
  using assms by (auto simp: ODD_BYTE_TYPES_def DATA_TYPE_NAMES_def)

text \<open>
  C2.  When the header of a file decodes and declares one of the eight odd-byte codes
  14..21, \<^verbatim>\<open>read_listmmf\<close> raises the odd-byte \<^verbatim>\<open>ListMmfReadError\<close>, whose message
  contains the name that \<^verbatim>\<open>DATA_TYPE_NAMES\<close> gives to the code, and returns no array,
  in either copy mode.
\<close>

theorem read_listmmf_odd_byte_rejected:
  assumes "read_header fs filepath = Inr header"
    and "datatype' header \<in> ODD_BYTE_TYPES"
  shows "\<exists>n. DATA_TYPE_NAMES (datatype' header) = Some n \<and>
             read_listmmf fs filepath copy =
               Inl (ListMmfReadError
                      (''Odd-byte type '' @ n @ '' is not supported. ''
                       @ ''Consider exporting from C# to a standard format first.'')) \<and>
             (\<forall>d. read_listmmf fs filepath copy \<noteq> Inr d)"
proof -
  obtain n where n: "DATA_TYPE_NAMES (datatype' header) = Some n"
    using odd_byte_named [OF assms(2)] by blast
  have "datatype_name header = n"
    using read_header_fields [OF assms(1)] n by simp
  then have "read_listmmf fs filepath copy =
               Inl (ListMmfReadError
                      (''Odd-byte type '' @ n @ '' is not supported. ''
                       @ ''Consider exporting from C# to a standard format first.''))"
    using assms by (simp add: read_listmmf_def)
  then show ?thesis
    using n by simp
qed

text \<open>A file of type 14 with a count of 1000 and three bytes of payload.\<close>

theorem read_listmmf_odd_byte_rejected_witness:
  "read_listmmf
     \<lparr>files = [''a.bt'' \<mapsto> [1, 0, 0, 0, 14, 0, 0, 0, 232, 3, 0, 0, 0, 0, 0, 0, 1, 2, 3]],
      listdir = Map.empty\<rparr> ''a.bt'' False
   = Inl (ListMmfReadError
            (''Odd-byte type Int24AsInt64 is not supported. ''
             @ ''Consider exporting from C# to a standard format first.''))"
proof -
  let ?fs = "\<lparr>files = [''a.bt'' \<mapsto> [1, 0, 0, 0, 14, 0, 0, 0, 232, 3, 0, 0, 0, 0, 0, 0, 1, 2, 3 :: byte]],
      listdir = Map.empty\<rparr>"
  have h: "read_header ?fs ''a.bt'' =
             Inr \<lparr>ListMmfHeader.version = 1, datatype' = 14, datatype_name = ''Int24AsInt64'', ListMmfHeader.count = 1000\<rparr>"
    by (simp add: read_header_def HEADER_SIZE_def struct_unpack_iiq_def int32_of_bytes_def
        int64_of_bytes_def word32_of_bytes_def word64_of_bytes_def DATA_TYPE_NAMES_def)
  have o: "datatype' \<lparr>ListMmfHeader.version = 1, datatype' = 14, datatype_name = ''Int24AsInt64'', ListMmfHeader.count = 1000\<rparr>
             \<in> ODD_BYTE_TYPES"
    by (simp add: ODD_BYTE_TYPES_def)
  show ?thesis
    using read_listmmf_odd_byte_rejected [OF h o, of False]
    by (simp add: DATA_TYPE_NAMES_def)
qed

section \<open>Widths\<close>

lemma dom_DTYPE_MAP: "dom DTYPE_MAP = {2, 3, 4, 5, 6, 7, 8, 9, 10, 11, 12, 13}"
  unfolding DTYPE_MAP_def dom_map_of_conv_image_fst by simp

text \<open>
  C6 (amended).  The scanner's table \<^verbatim>\<open>ELEM_WIDTH_BYTES\<close> has a width for every decodable
  and every odd-byte code and none for the struct code 0, but it has the width 1 for the
  bit-packed code 1.  The reader's table \<^verbatim>\<open>DTYPE_MAP\<close> has an element type exactly for the
  decodable codes, of the same width as in the scanner's table, and none for the codes 0
  and 1 and the odd-byte codes.
\<close>

theorem width_lookup_tables:
  "(\<forall>c \<in> dom DTYPE_MAP \<union> ODD_BYTE_DT. ELEM_WIDTH_BYTES c \<noteq> None) \<and>
   ELEM_WIDTH_BYTES 0 = None \<and>
   ELEM_WIDTH_BYTES 1 = Some 1 \<and>
   (\<forall>c \<in> dom DTYPE_MAP. map_option (int \<circ> itemsize) (DTYPE_MAP c) = ELEM_WIDTH_BYTES c) \<and>
   (\<forall>c \<in> {0, 1} \<union> ODD_BYTE_TYPES. DTYPE_MAP c = None)"
proof -
  have a: "\<forall>c \<in> dom DTYPE_MAP \<union> ODD_BYTE_DT. ELEM_WIDTH_BYTES c \<noteq> None"
    unfolding dom_DTYPE_MAP ODD_BYTE_DT_def by (simp add: ELEM_WIDTH_BYTES_def)
  have b: "ELEM_WIDTH_BYTES 0 = None" "ELEM_WIDTH_BYTES 1 = Some 1"
    by (simp_all add: ELEM_WIDTH_BYTES_def)
  have c: "\<forall>c \<in> dom DTYPE_MAP. map_option (int \<circ> itemsize) (DTYPE_MAP c) = ELEM_WIDTH_BYTES c"
    unfolding dom_DTYPE_MAP by (simp add: ELEM_WIDTH_BYTES_def DTYPE_MAP_def)
  have d: "\<forall>c \<in> {0, 1} \<union> ODD_BYTE_TYPES. DTYPE_MAP c = None"
    unfolding ODD_BYTE_TYPES_def by (simp add: DTYPE_MAP_def)
  show ?thesis
    using a b c d by blast
qed

text \<open>The tables at the codes 12 and 14.\<close>

theorem width_lookup_tables_witness:
  "ELEM_WIDTH_BYTES 14 \<noteq> None \<and> ELEM_WIDTH_BYTES 12 = Some 8 \<and> DTYPE_MAP 14 = None"
proof -
  have m: "(14::int) \<in> dom DTYPE_MAP \<union> ODD_BYTE_DT" "(12::int) \<in> dom DTYPE_MAP"
    "(14::int) \<in> {0, 1} \<union> ODD_BYTE_TYPES" "DTYPE_MAP 12 = Some np_int64"
    by (simp_all add: ODD_BYTE_DT_def ODD_BYTE_TYPES_def DTYPE_MAP_def)
  have "map_option (int \<circ> itemsize) (DTYPE_MAP 12) = ELEM_WIDTH_BYTES 12"
    using width_lookup_tables m(2) by blast
  then have "ELEM_WIDTH_BYTES 12 = Some 8"
    using m(4) by simp
  then show ?thesis
    using width_lookup_tables m by blast
qed

text \<open>
  C6 as stated fails in both tables: the scanner's has a width for the bit-packed code 1,
  and the reader's has none for the odd-byte code 14.
\<close>

theorem width_lookup_counterexample:
  "ELEM_WIDTH_BYTES 1 = Some 1 \<and> ELEM_WIDTH_BYTES 1 \<noteq> None \<and> DTYPE_MAP 14 = None"
  by (simp add: ELEM_WIDTH_BYTES_def DTYPE_MAP_def)

section \<open>The header round trip\<close>

lemma int32_of_bytes_nat_to_le:
  assumes "- (2 ^ 31) \<le> v" and "v < 2 ^ 31"
  shows "int32_of_bytes (nat_to_le 4 (nat (v mod 2 ^ 32))) = v"
proof -
  have "nat (v mod 2 ^ 32) < 2 ^ 32"
    by (simp add: nat_less_iff)
  then have "le_to_nat (nat_to_le 4 (nat (v mod 2 ^ 32))) = nat (v mod 2 ^ 32)"
    by (simp add: le_to_nat_nat_to_le)
  moreover have "(word_of_nat (nat (v mod 2 ^ 32)) :: 32 word) = word_of_int (v mod 2 ^ 32)"
    by (simp add: of_nat_nat)
  moreover have "(word_of_int (take_bit 32 v) :: 32 word) = word_of_int v"
    by (simp only: word_of_int_eq_iff) simp
  then have "(word_of_int (v mod 2 ^ 32) :: 32 word) = word_of_int v"
    by (simp only: take_bit_eq_mod)
  moreover have "sint (word_of_int v :: 32 word) = v"
    using assms by (simp add: sint_sbintrunc' signed_take_bit_int_eq_self)
  ultimately show ?thesis
    by (simp add: int32_of_bytes_def word32_of_bytes_def)
qed

lemma int64_of_bytes_nat_to_le:
  assumes "- (2 ^ 63) \<le> c" and "c < 2 ^ 63"
  shows "int64_of_bytes (nat_to_le 8 (nat (c mod 2 ^ 64))) = c"
proof -
  have "nat (c mod 2 ^ 64) < 2 ^ 64"
    by (simp add: nat_less_iff)
  then have "le_to_nat (nat_to_le 8 (nat (c mod 2 ^ 64))) = nat (c mod 2 ^ 64)"
    by (simp add: le_to_nat_nat_to_le)
  moreover have "(word_of_nat (nat (c mod 2 ^ 64)) :: 64 word) = word_of_int (c mod 2 ^ 64)"
    by (simp add: of_nat_nat)
  moreover have "(word_of_int (take_bit 64 c) :: 64 word) = word_of_int c"
    by (simp only: word_of_int_eq_iff) simp
  then have "(word_of_int (c mod 2 ^ 64) :: 64 word) = word_of_int c"
    by (simp only: take_bit_eq_mod)
  moreover have "sint (word_of_int c :: 64 word) = c"
    using assms by (simp add: sint_sbintrunc' signed_take_bit_int_eq_self)
  ultimately show ?thesis
    by (simp add: int64_of_bytes_def word64_of_bytes_def)
qed

lemma length_encode: "length (encode h) = 16"
  by (cases h) (simp add: encode_def length_nat_to_le)

lemma unpack_encode:
  assumes "- (2 ^ 31) \<le> v" "v < 2 ^ 31" "- (2 ^ 31) \<le> d" "d < 2 ^ 31"
    "- (2 ^ 63) \<le> c" "c < 2 ^ 63"
  shows "struct_unpack_iiq (encode (v, d, c)) = Inr (v, d, c)"
proof -
  let ?a = "nat_to_le 4 (nat (v mod 2 ^ 32))"
  let ?b = "nat_to_le 4 (nat (d mod 2 ^ 32))"
  let ?c = "nat_to_le 8 (nat (c mod 2 ^ 64))"
  have e: "encode (v, d, c) = ?a @ ?b @ ?c"
    by (simp add: encode_def)
  have la: "length ?a = 4" and lb: "length ?b = 4" and lc: "length ?c = 8"
    by (simp_all add: length_nat_to_le)
  have t1: "take 4 (?a @ ?b @ ?c) = ?a"
    using la by simp
  have t2: "take 4 (drop 4 (?a @ ?b @ ?c)) = ?b"
    using la lb by simp
  have t3: "take 8 (drop 8 (?a @ ?b @ ?c)) = ?c"
    using la lb lc by simp
  have t4: "length (?a @ ?b @ ?c) = 16"
    using la lb lc by simp
  have i1: "int32_of_bytes ?a = v"
    using assms(1,2) by (rule int32_of_bytes_nat_to_le)
  have i2: "int32_of_bytes ?b = d"
    using assms(3,4) by (rule int32_of_bytes_nat_to_le)
  have i3: "int64_of_bytes ?c = c"
    using assms(5,6) by (rule int64_of_bytes_nat_to_le)
  show ?thesis
    unfolding e struct_unpack_iiq_def
    by (simp only: t1 t2 t3 t4 i1 i2 i3) simp
qed

text \<open>
  C8.  For a version and a data type within int32 and a count within int64, the 16 bytes
  of \<open>encode\<close> are decoded by \<^verbatim>\<open>struct.unpack('<iiq', ...)\<close> to the same three numbers,
  and \<^verbatim>\<open>read_header\<close> of a file that starts with these bytes returns them.
\<close>

theorem header_round_trip:
  assumes "- (2 ^ 31) \<le> v" "v < 2 ^ 31" "- (2 ^ 31) \<le> d" "d < 2 ^ 31"
    "- (2 ^ 63) \<le> c" "c < 2 ^ 63"
  shows "length (encode (v, d, c)) = 16 \<and>
         struct_unpack_iiq (encode (v, d, c)) = Inr (v, d, c) \<and>
         (files fs filepath = Some (encode (v, d, c) @ payload) \<longrightarrow>
          (\<exists>h. read_header fs filepath = Inr h \<and> ListMmfHeader.version h = v \<and>
               datatype' h = d \<and> ListMmfHeader.count h = c))"
proof -
  have u: "struct_unpack_iiq (encode (v, d, c)) = Inr (v, d, c)"
    using assms by (rule unpack_encode)
  have "\<exists>h. read_header fs filepath = Inr h \<and> ListMmfHeader.version h = v \<and>
             datatype' h = d \<and> ListMmfHeader.count h = c"
    if "files fs filepath = Some (encode (v, d, c) @ payload)"
    using that u by (simp add: read_header_def HEADER_SIZE_def length_encode)
  then show ?thesis
    using u length_encode by blast
qed

text \<open>A header with a negative count survives the round trip as well.\<close>

theorem header_round_trip_witness:
  "struct_unpack_iiq (encode (1, 12, - 3)) = Inr (1, 12, - 3)"
proof -
  have "- (2 ^ 31) \<le> (1::int)" "(1::int) < 2 ^ 31" "- (2 ^ 31) \<le> (12::int)" "(12::int) < 2 ^ 31"
    "- (2 ^ 63) \<le> (- 3::int)" "(- 3::int) < 2 ^ 63"
    by simp_all
  from header_round_trip [OF this, of "\<lparr>files = Map.empty, listdir = Map.empty\<rparr>" "[]" "[]"]
  show ?thesis by blast
qed

section \<open>Counters\<close>

lemma counter_get_add:
  "counter_get (counter_add k v c) k' = (if k' = k then counter_get c k + v else counter_get c k')"
  by (simp add: counter_get_def counter_add_def update_conv')

lemma counter_total_add: "counter_total (counter_add k v c) = counter_total c + v"
  by (induction c) (auto simp: counter_total_def counter_add_def counter_get_def)

lemma distinct_counter_add:
  "distinct (map fst c) \<Longrightarrow> distinct (map fst (counter_add k v c))"
  by (simp add: counter_add_def distinct_update)

section \<open>One file of the scan\<close>

lemma odd_has_fallback:
  assumes "dt \<in> ODD_BYTE_DT"
  shows "\<exists>fb w. ODD_FALLBACK_WIDTH dt = Some fb \<and> ELEM_WIDTH_BYTES dt = Some w \<and> 0 < fb - w \<and>
           fb = (if dt = 14 \<or> dt = 18 then 4 else 8) \<and>
           w = (if dt = 14 \<or> dt = 18 then 3 else if dt = 15 \<or> dt = 19 then 5
                else if dt = 16 \<or> dt = 20 then 6 else 7)"
  using assms by (auto simp: ODD_BYTE_DT_def ODD_FALLBACK_WIDTH_def ELEM_WIDTH_BYTES_def)

lemma count_odd_not_odd:
  "data_type info \<notin> ODD_BYTE_DT \<Longrightarrow> count_odd st info = Inr st"
  by (simp add: count_odd_def)

lemma count_odd_odd:
  assumes "data_type info \<in> ODD_BYTE_DT"
    and "ODD_FALLBACK_WIDTH (data_type info) = Some fb"
    and "ELEM_WIDTH_BYTES (data_type info) = Some w"
  shows "count_odd st info =
           Inr (if 0 \<le> count info \<and> 0 < (fb - w) * count info
                then st\<lparr>odd_files := odd_files st + 1,
                        odd_saved_bytes_total := odd_saved_bytes_total st + (fb - w) * count info,
                        odd_saved_bytes_by_dtype :=
                          counter_add (data_type info) ((fb - w) * count info)
                            (odd_saved_bytes_by_dtype st)\<rparr>
                else st\<lparr>odd_files := odd_files st + 1\<rparr>)"
  using assms by (simp add: count_odd_def Let_def)

lemma count_odd_total: "\<exists>st'. count_odd st info = Inr st'"
proof (cases "data_type info \<in> ODD_BYTE_DT")
  case True
  then obtain fb w where "ODD_FALLBACK_WIDTH (data_type info) = Some fb"
    "ELEM_WIDTH_BYTES (data_type info) = Some w"
    using odd_has_fallback by blast
  with True show ?thesis
    using count_odd_odd by blast
next
  case False
  then show ?thesis by (simp add: count_odd_not_odd)
qed

lemma count_odd_unchanged:
  assumes "count_odd st info = Inr st'"
  shows "total_files st' = total_files st" "total_bytes st' = total_bytes st"
    "by_dtype_files st' = by_dtype_files st" "by_dtype_items st' = by_dtype_items st"
    "by_dtype_bytes st' = by_dtype_bytes st" "results st' = results st" "stderr st' = stderr st"
  using assms
  by (auto simp: count_odd_def Let_def split: if_splits option.splits)

lemma count_odd_stderr:
  assumes "count_odd st info = Inr st'"
  shows "count_odd (st\<lparr>stderr := e\<rparr>) info = Inr (st'\<lparr>stderr := e\<rparr>)"
  using assms
  by (auto simp: count_odd_def Let_def split: if_splits option.splits)

lemma process_file_total: "\<exists>st'. process_file st info = Inr st'"
  using count_odd_total [of "count_file st info" info]
  by (auto simp: process_file_def)

lemma process_file_stderr:
  assumes "process_file st info = Inr st'"
  shows "process_file (st\<lparr>stderr := e\<rparr>) info = Inr (st'\<lparr>stderr := e\<rparr>)"
    and "stderr st' = stderr st"
proof -
  obtain s where s: "count_odd (count_file st info) info = Inr s"
    using count_odd_total by blast
  then have st': "st' = s\<lparr>results := results s @ [info]\<rparr>"
    using assms by (simp add: process_file_def)
  have "count_file (st\<lparr>stderr := e\<rparr>) info = (count_file st info)\<lparr>stderr := e\<rparr>"
    by (simp add: count_file_def)
  then have "count_odd (count_file (st\<lparr>stderr := e\<rparr>) info) info = Inr (s\<lparr>stderr := e\<rparr>)"
    using count_odd_stderr [OF s] by simp
  then show "process_file (st\<lparr>stderr := e\<rparr>) info = Inr (st'\<lparr>stderr := e\<rparr>)"
    by (simp add: process_file_def st')
  show "stderr st' = stderr st"
    using count_odd_unchanged(7) [OF s] by (simp add: st' count_file_def)
qed

lemma process_file_invariant:
  assumes "scan_invariant st" and "process_file st info = Inr st'"
  shows "scan_invariant st'"
proof -
  obtain s where s: "count_odd (count_file st info) info = Inr s"
    using count_odd_total by blast
  then have st': "st' = s\<lparr>results := results s @ [info]\<rparr>"
    using assms(2) by (simp add: process_file_def)
  note u = count_odd_unchanged [OF s]
  have f: "total_files st' = total_files st + 1" "total_bytes st' = total_bytes st + size_bytes info"
    "by_dtype_files st' = counter_add (data_type info) 1 (by_dtype_files st)"
    "by_dtype_bytes st' = counter_add (data_type info) (size_bytes info) (by_dtype_bytes st)"
    "results st' = results st @ [info]"
    using u by (simp_all add: st' count_file_def)
  show ?thesis
    using assms(1) unfolding scan_invariant_def f
    by (simp add: counter_total_add distinct_counter_add counter_get_add)
qed


text \<open>
  C3.  For a file whose header declares an odd-byte type, the scan takes
  \<open>saved = (fallback - width) * count\<close>, where the fallback is 4 for the 3-byte types 14
  and 18 and 8 for the 5-, 6- and 7-byte types, and adds \<open>saved\<close> to the total and to the
  type's entry exactly when \<open>saved > 0\<close>; every other entry is unchanged.  Type 14 with
  a count of 1000 adds 1000 bytes and type 15 with a count of 1000 adds 3000.
\<close>

theorem odd_byte_savings:
  assumes "data_type info \<in> ODD_BYTE_DT"
  shows "\<exists>fb w st'.
           ODD_FALLBACK_WIDTH (data_type info) = Some fb \<and>
           ELEM_WIDTH_BYTES (data_type info) = Some w \<and>
           fb = (if data_type info = 14 \<or> data_type info = 18 then 4 else 8) \<and>
           w = (if data_type info = 14 \<or> data_type info = 18 then 3
                else if data_type info = 15 \<or> data_type info = 19 then 5
                else if data_type info = 16 \<or> data_type info = 20 then 6 else 7) \<and>
           process_file st info = Inr st' \<and>
           odd_saved_bytes_total st' =
             odd_saved_bytes_total st
             + (if 0 < (fb - w) * count info then (fb - w) * count info else 0) \<and>
           (\<forall>k. counter_get (odd_saved_bytes_by_dtype st') k =
                  counter_get (odd_saved_bytes_by_dtype st) k
                  + (if k = data_type info \<and> 0 < (fb - w) * count info
                     then (fb - w) * count info else 0)) \<and>
           (\<not> 0 < (fb - w) * count info \<longrightarrow>
              odd_saved_bytes_by_dtype st' = odd_saved_bytes_by_dtype st) \<and>
           (data_type info = 14 \<and> count info = 1000 \<longrightarrow>
              odd_saved_bytes_total st' = odd_saved_bytes_total st + 1000) \<and>
           (data_type info = 15 \<and> count info = 1000 \<longrightarrow>
              odd_saved_bytes_total st' = odd_saved_bytes_total st + 3000)"
proof -
  obtain fb w where fw: "ODD_FALLBACK_WIDTH (data_type info) = Some fb"
    "ELEM_WIDTH_BYTES (data_type info) = Some w" "0 < fb - w"
    "fb = (if data_type info = 14 \<or> data_type info = 18 then 4 else 8)"
    "w = (if data_type info = 14 \<or> data_type info = 18 then 3
          else if data_type info = 15 \<or> data_type info = 19 then 5
          else if data_type info = 16 \<or> data_type info = 20 then 6 else 7)"
    using odd_has_fallback [OF assms] by blast
  let ?saved = "(fb - w) * count info"
  let ?s = "count_file st info"
  have pos: "0 \<le> count info \<and> 0 < ?saved \<longleftrightarrow> 0 < ?saved"
    using fw(3) by (auto simp: zero_less_mult_iff)
  have c: "count_odd ?s info =
             Inr (if 0 < ?saved
                  then ?s\<lparr>odd_files := odd_files ?s + 1,
                          odd_saved_bytes_total := odd_saved_bytes_total ?s + ?saved,
                          odd_saved_bytes_by_dtype :=
                            counter_add (data_type info) ?saved (odd_saved_bytes_by_dtype ?s)\<rparr>
                  else ?s\<lparr>odd_files := odd_files ?s + 1\<rparr>)"
    using count_odd_odd [OF assms fw(1,2), of ?s] pos by simp
  obtain st' where st': "process_file st info = Inr st'"
    using process_file_total by blast
  have o: "odd_saved_bytes_total ?s = odd_saved_bytes_total st"
    "odd_saved_bytes_by_dtype ?s = odd_saved_bytes_by_dtype st"
    by (simp_all add: count_file_def)
  have t: "odd_saved_bytes_total st' =
             odd_saved_bytes_total st + (if 0 < ?saved then ?saved else 0)"
    using st' c o by (auto simp: process_file_def)
  have b: "odd_saved_bytes_by_dtype st' =
             (if 0 < ?saved
              then counter_add (data_type info) ?saved (odd_saved_bytes_by_dtype st)
              else odd_saved_bytes_by_dtype st)"
    using st' c o by (auto simp: process_file_def)
  have k: "\<forall>k. counter_get (odd_saved_bytes_by_dtype st') k =
                counter_get (odd_saved_bytes_by_dtype st) k
                + (if k = data_type info \<and> 0 < ?saved then ?saved else 0)"
    unfolding b by (simp add: counter_get_add)
  have n: "\<not> 0 < ?saved \<longrightarrow> odd_saved_bytes_by_dtype st' = odd_saved_bytes_by_dtype st"
    unfolding b by simp
  have e14: "data_type info = 14 \<and> count info = 1000 \<longrightarrow>
               odd_saved_bytes_total st' = odd_saved_bytes_total st + 1000"
    using t fw(4,5) by simp
  have e15: "data_type info = 15 \<and> count info = 1000 \<longrightarrow>
               odd_saved_bytes_total st' = odd_saved_bytes_total st + 3000"
    using t fw(4,5) by simp
  show ?thesis
    using fw(1,2,4,5) st' t k n e14 e15 by blast
qed

text \<open>A file of type 14 with 1000 elements, counted into the empty statistics.\<close>

theorem odd_byte_savings_witness:
  "\<exists>st'. process_file scan_init
           \<lparr>path = ''Close.bt'', size_bytes = 3016, version = 1, data_type = 14, count = 1000\<rparr>
         = Inr st' \<and> odd_saved_bytes_total st' = 1000"
proof -
  let ?info = "\<lparr>path = ''Close.bt'', size_bytes = 3016, version = 1, data_type = 14, count = 1000\<rparr>"
  have "data_type ?info \<in> ODD_BYTE_DT"
    by (simp add: ODD_BYTE_DT_def)
  from odd_byte_savings [OF this, of scan_init]
  show ?thesis
    by (auto simp: scan_init_def)
qed

section \<open>The whole scan\<close>

lemma scan_read_header_cases:
  "(snd (scan_read_header fs p) = None \<and> fst (scan_read_header fs p) \<noteq> []) \<or>
   (\<exists>info. snd (scan_read_header fs p) = Some info \<and> fst (scan_read_header fs p) = [])"
  by (auto simp: scan_read_header_def split: option.splits sum.splits)

lemma scan_file_not_bt:
  "\<not> is_bt fn \<Longrightarrow> scan_file fs root st fn = Inr st"
  by (simp add: scan_file_def is_bt_def)

lemma scan_file_bad:
  assumes "bad_file fs root fn"
  shows "scan_file fs root st fn =
           Inr (st\<lparr>stderr := stderr st @ fst (scan_read_header fs (path_join root fn))\<rparr>)"
    and "fst (scan_read_header fs (path_join root fn)) \<noteq> []"
proof -
  obtain msgs r where m: "scan_read_header fs (path_join root fn) = (msgs, r)"
    by (cases "scan_read_header fs (path_join root fn)")
  with assms have "r = None" "is_bt fn"
    by (simp_all add: bad_file_def)
  then show "scan_file fs root st fn =
           Inr (st\<lparr>stderr := stderr st @ fst (scan_read_header fs (path_join root fn))\<rparr>)"
    using m by (simp add: scan_file_def is_bt_def)
  show "fst (scan_read_header fs (path_join root fn)) \<noteq> []"
    using scan_read_header_cases [of fs "path_join root fn"] m \<open>r = None\<close> by auto
qed

lemma scan_file_good:
  assumes "is_bt fn" and "\<not> bad_file fs root fn"
  shows "\<exists>info. snd (scan_read_header fs (path_join root fn)) = Some info \<and>
           scan_file fs root st fn = process_file st info"
proof -
  obtain info where i: "snd (scan_read_header fs (path_join root fn)) = Some info"
    "fst (scan_read_header fs (path_join root fn)) = []"
    using scan_read_header_cases [of fs "path_join root fn"] assms
    by (auto simp: bad_file_def)
  then have "scan_read_header fs (path_join root fn) = ([], Some info)"
    by (metis prod.collapse)
  then have "scan_file fs root st fn = process_file st info"
    using assms(1) by (simp add: scan_file_def is_bt_def)
  then show ?thesis
    using i(1) by blast
qed

lemma scan_file_kept:
  assumes "\<not> bad_file fs root fn"
  shows "\<exists>st'. scan_file fs root st fn = Inr st' \<and> stderr st' = stderr st \<and>
           scan_file fs root (st\<lparr>stderr := e\<rparr>) fn = Inr (st'\<lparr>stderr := e\<rparr>)"
proof (cases "is_bt fn")
  case True
  then obtain info where i: "\<And>s. scan_file fs root s fn = process_file s info"
    using scan_file_good [OF True assms] by (metis option.inject)
  obtain st' where "process_file st info = Inr st'"
    using process_file_total by blast
  then show ?thesis
    using process_file_stderr i by metis
next
  case False
  then show ?thesis
    by (simp add: scan_file_not_bt)
qed

lemma scan_file_invariant:
  assumes "scan_invariant st" and "scan_file fs root st fn = Inr st'"
  shows "scan_invariant st'"
proof (cases "bad_file fs root fn")
  case True
  then have "st' = st\<lparr>stderr := stderr st @ fst (scan_read_header fs (path_join root fn))\<rparr>"
    using scan_file_bad(1) assms(2) by (metis sum.inject(2))
  then show ?thesis
    using assms(1) by (simp add: scan_invariant_def)
next
  case False
  show ?thesis
  proof (cases "is_bt fn")
    case True
    then obtain info where "scan_file fs root st fn = process_file st info"
      using scan_file_good [OF True False] by blast
    then show ?thesis
      using assms process_file_invariant by metis
  next
    case False
    then show ?thesis
      using assms by (simp add: scan_file_not_bt)
  qed
qed

lemma scan_files_invariant:
  "scan_invariant st \<Longrightarrow> scan_files fs root st fns = Inr st' \<Longrightarrow> scan_invariant st'"
proof (induction fns arbitrary: st)
  case Nil
  then show ?case by simp
next
  case (Cons fn fns)
  then show ?case
    by (auto split: sum.splits dest: scan_file_invariant)
qed

lemma scan_walk_invariant:
  "scan_invariant st \<Longrightarrow> scan_walk fs st walk = Inr st' \<Longrightarrow> scan_invariant st'"
proof (induction walk arbitrary: st)
  case Nil
  then show ?case by simp
next
  case (Cons a walk)
  then show ?case
    by (cases a) (auto split: sum.splits dest: scan_files_invariant)
qed

lemma scan_files_skip:
  "\<exists>st'. scan_files fs root st fns = Inr st' \<and>
         scan_files fs root (st\<lparr>stderr := []\<rparr>) (filter (\<lambda>fn. \<not> bad_file fs root fn) fns)
           = Inr (st'\<lparr>stderr := []\<rparr>) \<and>
         set (stderr st) \<subseteq> set (stderr st') \<and>
         (\<forall>fn \<in> set fns. bad_file fs root fn \<longrightarrow>
            set (fst (scan_read_header fs (path_join root fn))) \<subseteq> set (stderr st'))"
proof (induction fns arbitrary: st)
  case Nil
  then show ?case by simp
next
  case (Cons fn fns)
  show ?case
  proof (cases "bad_file fs root fn")
    case True
    let ?st1 = "st\<lparr>stderr := stderr st @ fst (scan_read_header fs (path_join root fn))\<rparr>"
    have s1: "scan_file fs root st fn = Inr ?st1"
      using True by (rule scan_file_bad(1))
    obtain st' where st': "scan_files fs root ?st1 fns = Inr st'"
      "scan_files fs root (?st1\<lparr>stderr := []\<rparr>) (filter (\<lambda>fn. \<not> bad_file fs root fn) fns)
         = Inr (st'\<lparr>stderr := []\<rparr>)"
      "set (stderr ?st1) \<subseteq> set (stderr st')"
      "\<forall>fn \<in> set fns. bad_file fs root fn \<longrightarrow>
         set (fst (scan_read_header fs (path_join root fn))) \<subseteq> set (stderr st')"
      using Cons.IH [of ?st1] by blast
    have "scan_files fs root st (fn # fns) = Inr st'"
      using s1 st'(1) by simp
    moreover have "scan_files fs root (st\<lparr>stderr := []\<rparr>)
                     (filter (\<lambda>fn. \<not> bad_file fs root fn) (fn # fns)) = Inr (st'\<lparr>stderr := []\<rparr>)"
      using True st'(2) by simp
    moreover have "set (stderr st) \<subseteq> set (stderr st')"
      using st'(3) by simp
    moreover have "\<forall>f \<in> set (fn # fns). bad_file fs root f \<longrightarrow>
                     set (fst (scan_read_header fs (path_join root f))) \<subseteq> set (stderr st')"
      using st'(3,4) by simp
    ultimately show ?thesis by blast
  next
    case False
    obtain st1 where s1: "scan_file fs root st fn = Inr st1" "stderr st1 = stderr st"
      "scan_file fs root (st\<lparr>stderr := []\<rparr>) fn = Inr (st1\<lparr>stderr := []\<rparr>)"
      using scan_file_kept [OF False] by blast
    obtain st' where st': "scan_files fs root st1 fns = Inr st'"
      "scan_files fs root (st1\<lparr>stderr := []\<rparr>) (filter (\<lambda>fn. \<not> bad_file fs root fn) fns)
         = Inr (st'\<lparr>stderr := []\<rparr>)"
      "set (stderr st1) \<subseteq> set (stderr st')"
      "\<forall>fn \<in> set fns. bad_file fs root fn \<longrightarrow>
         set (fst (scan_read_header fs (path_join root fn))) \<subseteq> set (stderr st')"
      using Cons.IH [of st1] by blast
    have "scan_files fs root st (fn # fns) = Inr st'"
      using s1(1) st'(1) by simp
    moreover have "scan_files fs root (st\<lparr>stderr := []\<rparr>)
                     (filter (\<lambda>fn. \<not> bad_file fs root fn) (fn # fns)) = Inr (st'\<lparr>stderr := []\<rparr>)"
      using False s1(3) st'(2) by simp
    moreover have "set (stderr st) \<subseteq> set (stderr st')"
      using st'(3) s1(2) by simp
    moreover have "\<forall>f \<in> set (fn # fns). bad_file fs root f \<longrightarrow>
                     set (fst (scan_read_header fs (path_join root f))) \<subseteq> set (stderr st')"
      using st'(4) False by simp
    ultimately show ?thesis by blast
  qed
qed

lemma scan_walk_skip:
  "\<exists>st'. scan_walk fs st walk = Inr st' \<and>
         scan_walk fs (st\<lparr>stderr := []\<rparr>) (skip_bad fs walk) = Inr (st'\<lparr>stderr := []\<rparr>) \<and>
         set (stderr st) \<subseteq> set (stderr st') \<and>
         (\<forall>(root, fns) \<in> set walk. \<forall>fn \<in> set fns. bad_file fs root fn \<longrightarrow>
            set (fst (scan_read_header fs (path_join root fn))) \<subseteq> set (stderr st'))"
proof (induction walk arbitrary: st)
  case Nil
  then show ?case by (simp add: skip_bad_def)
next
  case (Cons a walk)
  obtain root fns where a: "a = (root, fns)" by (cases a)
  obtain st1 where s1: "scan_files fs root st fns = Inr st1"
    "scan_files fs root (st\<lparr>stderr := []\<rparr>) (filter (\<lambda>fn. \<not> bad_file fs root fn) fns)
       = Inr (st1\<lparr>stderr := []\<rparr>)"
    "set (stderr st) \<subseteq> set (stderr st1)"
    "\<forall>fn \<in> set fns. bad_file fs root fn \<longrightarrow>
       set (fst (scan_read_header fs (path_join root fn))) \<subseteq> set (stderr st1)"
    using scan_files_skip [of fs root st fns] by blast
  obtain st' where st': "scan_walk fs st1 walk = Inr st'"
    "scan_walk fs (st1\<lparr>stderr := []\<rparr>) (skip_bad fs walk) = Inr (st'\<lparr>stderr := []\<rparr>)"
    "set (stderr st1) \<subseteq> set (stderr st')"
    "\<forall>(root, fns) \<in> set walk. \<forall>fn \<in> set fns. bad_file fs root fn \<longrightarrow>
       set (fst (scan_read_header fs (path_join root fn))) \<subseteq> set (stderr st')"
    using Cons.IH [of st1] by blast
  have "scan_walk fs st (a # walk) = Inr st'"
    using s1(1) st'(1) by (simp add: a)
  moreover have "scan_walk fs (st\<lparr>stderr := []\<rparr>) (skip_bad fs (a # walk)) = Inr (st'\<lparr>stderr := []\<rparr>)"
    using s1(2) st'(2) by (simp add: a skip_bad_def)
  moreover have "set (stderr st) \<subseteq> set (stderr st')"
    using s1(3) st'(3) by simp
  moreover have "\<forall>(root, fns) \<in> set (a # walk). \<forall>fn \<in> set fns. bad_file fs root fn \<longrightarrow>
       set (fst (scan_read_header fs (path_join root fn))) \<subseteq> set (stderr st')"
    using s1(4) st'(3,4) by (auto simp: a)
  ultimately show ?case by blast
qed


text \<open>The scan of the small corpus, computed.\<close>

lemmas scan_eval =
  scan_dir_def scan_init_def scan_file_def scan_read_header_def process_file_def
  count_file_def count_odd_def counter_add_def counter_get_def
  lower_def lower_char_def endswith_def path_join_def LISTMMF_HEADER_SIZE_def
  struct_unpack_iiq_def int32_of_bytes_def int64_of_bytes_def word32_of_bytes_def
  word64_of_bytes_def ODD_BYTE_DT_def ODD_FALLBACK_WIDTH_def ELEM_WIDTH_BYTES_def

lemma example_scan: "scan_dir example_fs example_walk = Inr example_result"
  by (simp add: example_fs_def example_walk_def example_result_def scan_eval)

lemma example_bad:
  "bad_file example_fs ''d'' ''b.BT''"
  "fst (scan_read_header example_fs (path_join ''d'' ''b.BT'')) =
     [''WARN: File too small for header: d/b.BT'']"
  by (simp_all add: bad_file_def is_bt_def example_fs_def scan_eval)

text \<open>
  C7.  \<^verbatim>\<open>scan_dir\<close> always returns: no file makes it raise.  A \<^verbatim>\<open>.bt\<close> file that
  is not there or is shorter than 16 bytes is a bad file; each bad file leaves its lines
  on standard error, and everything else in the result is what the scan of the walk
  without the bad files gives.
\<close>

theorem scan_dir_skips_bad_files:
  "\<exists>st. scan_dir fs walk = Inr st \<and>
        scan_dir fs (skip_bad fs walk) = Inr (st\<lparr>stderr := []\<rparr>) \<and>
        (\<forall>(root, fns) \<in> set walk. \<forall>fn \<in> set fns. bad_file fs root fn \<longrightarrow>
           fst (scan_read_header fs (path_join root fn)) \<noteq> [] \<and>
           set (fst (scan_read_header fs (path_join root fn))) \<subseteq> set (stderr st)) \<and>
        (\<forall>root fn. is_bt fn \<longrightarrow>
           (bad_file fs root fn \<longleftrightarrow>
              (case files fs (path_join root fn) of
                 None \<Rightarrow> True
               | Some content \<Rightarrow> length content < 16)))"
proof -
  have i: "scan_init\<lparr>stderr := []\<rparr> = scan_init"
    by (simp add: scan_init_def)
  obtain st where st: "scan_walk fs scan_init walk = Inr st"
    "scan_walk fs (scan_init\<lparr>stderr := []\<rparr>) (skip_bad fs walk) = Inr (st\<lparr>stderr := []\<rparr>)"
    "\<forall>(root, fns) \<in> set walk. \<forall>fn \<in> set fns. bad_file fs root fn \<longrightarrow>
       set (fst (scan_read_header fs (path_join root fn))) \<subseteq> set (stderr st)"
    using scan_walk_skip [of fs scan_init walk] by blast
  have w: "\<forall>(root, fns) \<in> set walk. \<forall>fn \<in> set fns. bad_file fs root fn \<longrightarrow>
           fst (scan_read_header fs (path_join root fn)) \<noteq> [] \<and>
           set (fst (scan_read_header fs (path_join root fn))) \<subseteq> set (stderr st)"
    using st(3) scan_file_bad(2) by fast
  have b: "\<forall>root fn. is_bt fn \<longrightarrow>
           (bad_file fs root fn \<longleftrightarrow>
              (case files fs (path_join root fn) of
                 None \<Rightarrow> True
               | Some content \<Rightarrow> length content < 16))"
    by (auto simp: bad_file_def scan_read_header_def LISTMMF_HEADER_SIZE_def
        struct_unpack_iiq_def split: option.splits)
  show ?thesis
    using st(1,2) w b unfolding scan_dir_def i by blast
qed

text \<open>The small corpus: the truncated file is reported and not counted.\<close>

theorem scan_dir_skips_bad_files_witness:
  "\<exists>st. scan_dir example_fs example_walk = Inr st \<and>
        scan_dir example_fs (skip_bad example_fs example_walk) = Inr (st\<lparr>stderr := []\<rparr>) \<and>
        ''WARN: File too small for header: d/b.BT'' \<in> set (stderr st)"
proof -
  have m: "(''d'', [''a.bt'', ''b.BT'', ''c.txt'', ''e.bt'', ''f.bt'', ''g.bt'']) \<in> set example_walk"
    "''b.BT'' \<in> set [''a.bt'', ''b.BT'', ''c.txt'', ''e.bt'', ''f.bt'', ''g.bt'']"
    by (simp_all add: example_walk_def)
  obtain st where st: "scan_dir example_fs example_walk = Inr st"
    "scan_dir example_fs (skip_bad example_fs example_walk) = Inr (st\<lparr>stderr := []\<rparr>)"
    "\<forall>(root, fns) \<in> set example_walk. \<forall>fn \<in> set fns. bad_file example_fs root fn \<longrightarrow>
       fst (scan_read_header example_fs (path_join root fn)) \<noteq> [] \<and>
       set (fst (scan_read_header example_fs (path_join root fn))) \<subseteq> set (stderr st)"
    using scan_dir_skips_bad_files [of example_fs example_walk] by blast
  have "set (fst (scan_read_header example_fs (path_join ''d'' ''b.BT''))) \<subseteq> set (stderr st)"
    using st(3) m example_bad(1) by blast
  then have "''WARN: File too small for header: d/b.BT'' \<in> set (stderr st)"
    unfolding example_bad(2) by simp
  then show ?thesis
    using st(1,2) by blast
qed

lemma scan_invariant_init: "scan_invariant scan_init"
  by (simp add: scan_invariant_def scan_init_def counter_total_def counter_get_def)

lemma process_file_counts:
  assumes "process_file st info = Inr st'"
  shows "total_files st' = total_files st + 1"
    and "total_bytes st' = total_bytes st + size_bytes info"
    and "by_dtype_files st' = counter_add (data_type info) 1 (by_dtype_files st)"
    and "by_dtype_bytes st' = counter_add (data_type info) (size_bytes info) (by_dtype_bytes st)"
    and "results st' = results st @ [info]"
proof -
  obtain s where s: "count_odd (count_file st info) info = Inr s"
    using count_odd_total by blast
  then have st': "st' = s\<lparr>results := results s @ [info]\<rparr>"
    using assms by (simp add: process_file_def)
  note u = count_odd_unchanged [OF s]
  show "total_files st' = total_files st + 1"
    "total_bytes st' = total_bytes st + size_bytes info"
    "by_dtype_files st' = counter_add (data_type info) 1 (by_dtype_files st)"
    "by_dtype_bytes st' = counter_add (data_type info) (size_bytes info) (by_dtype_bytes st)"
    "results st' = results st @ [info]"
    using u by (simp_all add: st' count_file_def)
qed

lemma scan_file_skipped:
  assumes "decoded fs root fn = None" and "scan_file fs root st fn = Inr st'"
  shows "total_files st' = total_files st \<and> total_bytes st' = total_bytes st \<and>
         by_dtype_files st' = by_dtype_files st \<and> by_dtype_bytes st' = by_dtype_bytes st \<and>
         results st' = results st"
proof (cases "is_bt fn")
  case True
  then have "bad_file fs root fn"
    using assms(1) by (simp add: decoded_def bad_file_def)
  then have "st' = st\<lparr>stderr := stderr st @ fst (scan_read_header fs (path_join root fn))\<rparr>"
    using scan_file_bad(1) assms(2) by (metis sum.inject(2))
  then show ?thesis by simp
next
  case False
  then show ?thesis
    using assms(2) by (simp add: scan_file_not_bt)
qed

lemma scan_file_counted:
  assumes "decoded fs root fn = Some info" and "scan_file fs root st fn = Inr st'"
  shows "total_files st' = total_files st + 1 \<and>
         total_bytes st' = total_bytes st + size_bytes info \<and>
         (\<forall>dt. counter_get (by_dtype_files st') dt =
                 counter_get (by_dtype_files st) dt + (if dt = data_type info then 1 else 0)) \<and>
         (\<forall>dt. counter_get (by_dtype_bytes st') dt =
                 counter_get (by_dtype_bytes st) dt
                 + (if dt = data_type info then size_bytes info else 0)) \<and>
         results st' = results st @ [info]"
proof -
  have b: "is_bt fn" "snd (scan_read_header fs (path_join root fn)) = Some info"
    using assms(1) by (simp_all add: decoded_def split: if_splits)
  then have "\<not> bad_file fs root fn"
    by (simp add: bad_file_def)
  then have "scan_file fs root st fn = process_file st info"
    using scan_file_good [OF b(1), of fs root st] b(2) by auto
  then have p: "process_file st info = Inr st'"
    using assms(2) by simp
  show ?thesis
    unfolding process_file_counts [OF p] by (simp add: counter_get_add)
qed

lemma scan_files_results:
  "scan_files fs root st fns = Inr st' \<Longrightarrow>
   results st' = results st @ List.map_filter (decoded fs root) fns"
proof (induction fns arbitrary: st)
  case Nil
  then show ?case by (simp add: map_filter_simps)
next
  case (Cons fn fns)
  obtain st1 where s1: "scan_file fs root st fn = Inr st1" "scan_files fs root st1 fns = Inr st'"
    using Cons.prems by (auto split: sum.splits)
  have "results st1 = results st @ List.map_filter (decoded fs root) [fn]"
  proof (cases "decoded fs root fn")
    case None
    then show ?thesis
      using scan_file_skipped [OF None s1(1)] by (simp add: map_filter_simps)
  next
    case (Some info)
    then show ?thesis
      using scan_file_counted [OF Some s1(1)] by (simp add: map_filter_simps)
  qed
  then show ?case
    using Cons.IH [OF s1(2)] by (simp add: map_filter_simps split: option.splits)
qed

lemma scan_walk_results:
  "scan_walk fs st walk = Inr st' \<Longrightarrow> results st' = results st @ decoded_infos fs walk"
proof (induction walk arbitrary: st)
  case Nil
  then show ?case by (simp add: decoded_infos_def)
next
  case (Cons a walk)
  obtain root fns where a: "a = (root, fns)" by (cases a)
  obtain st1 where s1: "scan_files fs root st fns = Inr st1" "scan_walk fs st1 walk = Inr st'"
    using Cons.prems unfolding a by (auto split: sum.splits)
  show ?case
    using scan_files_results [OF s1(1)] Cons.IH [OF s1(2)]
    by (simp add: a decoded_infos_def)
qed

lemma decoded_from_bytes:
  "decoded fs root fn = Some info \<longleftrightarrow>
     is_bt fn \<and>
     (\<exists>content. files fs (path_join root fn) = Some content \<and> 16 \<le> length content \<and>
        info = \<lparr>path = path_join root fn, size_bytes = int (length content),
                version = int32_of_bytes (take 4 content),
                data_type = int32_of_bytes (take 4 (drop 4 content)),
                count = int64_of_bytes (take 8 (drop 8 content))\<rparr>)"
  by (auto simp: decoded_def scan_read_header_def LISTMMF_HEADER_SIZE_def
      struct_unpack_iiq_def drop_take min_def split: option.splits)

text \<open>
  C9.  The invariant is kept by the processing of each file and holds in the result of
  \<^verbatim>\<open>scan_dir\<close>: the number of files is the sum of the numbers per type, the bytes are the
  sum of the bytes per type, and each type's entry counts exactly the files of that type
  whose header was read.  A file of the walk whose header is read, that is a \<^verbatim>\<open>.bt\<close>
  file of at least 16 bytes, adds one to the number of files and to the entry of its own
  type and its size to both byte counts; any other name of the walk adds nothing.  In the
  result the files counted are exactly the files of the walk whose header is read, each
  once, in the totals and in the breakdown.
\<close>

theorem scan_dir_totals_agree:
  "(scan_invariant st \<and> scan_file fs root st fn = Inr st' \<longrightarrow> scan_invariant st') \<and>
   (scan_dir fs walk = Inr st'' \<longrightarrow> scan_invariant st'') \<and>
   (scan_file fs root st fn = Inr st' \<longrightarrow>
      (case decoded fs root fn of
         None \<Rightarrow>
           total_files st' = total_files st \<and> total_bytes st' = total_bytes st \<and>
           by_dtype_files st' = by_dtype_files st \<and> by_dtype_bytes st' = by_dtype_bytes st \<and>
           results st' = results st
       | Some info \<Rightarrow>
           total_files st' = total_files st + 1 \<and>
           total_bytes st' = total_bytes st + size_bytes info \<and>
           (\<forall>dt. counter_get (by_dtype_files st') dt =
                   counter_get (by_dtype_files st) dt + (if dt = data_type info then 1 else 0)) \<and>
           (\<forall>dt. counter_get (by_dtype_bytes st') dt =
                   counter_get (by_dtype_bytes st) dt
                   + (if dt = data_type info then size_bytes info else 0)) \<and>
           results st' = results st @ [info])) \<and>
   (scan_dir fs walk = Inr st'' \<longrightarrow>
      results st'' = decoded_infos fs walk \<and>
      total_files st'' = int (length (decoded_infos fs walk)) \<and>
      total_bytes st'' = sum_list (map size_bytes (decoded_infos fs walk)) \<and>
      (\<forall>dt. counter_get (by_dtype_files st'') dt =
              int (length (filter (\<lambda>info. data_type info = dt) (decoded_infos fs walk)))) \<and>
      (\<forall>dt. counter_get (by_dtype_bytes st'') dt =
              sum_list (map size_bytes
                (filter (\<lambda>info. data_type info = dt) (decoded_infos fs walk))))) \<and>
   (decoded fs root fn = Some info \<longleftrightarrow>
      is_bt fn \<and>
      (\<exists>content. files fs (path_join root fn) = Some content \<and> 16 \<le> length content \<and>
         info = \<lparr>path = path_join root fn, size_bytes = int (length content),
                 version = int32_of_bytes (take 4 content),
                 data_type = int32_of_bytes (take 4 (drop 4 content)),
                 count = int64_of_bytes (take 8 (drop 8 content))\<rparr>))"
proof -
  have a: "scan_invariant st \<and> scan_file fs root st fn = Inr st' \<longrightarrow> scan_invariant st'"
    using scan_file_invariant by blast
  have b: "scan_dir fs walk = Inr st'' \<longrightarrow> scan_invariant st''"
    using scan_walk_invariant [OF scan_invariant_init] unfolding scan_dir_def by blast
  have c: "scan_file fs root st fn = Inr st' \<longrightarrow>
      (case decoded fs root fn of
         None \<Rightarrow>
           total_files st' = total_files st \<and> total_bytes st' = total_bytes st \<and>
           by_dtype_files st' = by_dtype_files st \<and> by_dtype_bytes st' = by_dtype_bytes st \<and>
           results st' = results st
       | Some info \<Rightarrow>
           total_files st' = total_files st + 1 \<and>
           total_bytes st' = total_bytes st + size_bytes info \<and>
           (\<forall>dt. counter_get (by_dtype_files st') dt =
                   counter_get (by_dtype_files st) dt + (if dt = data_type info then 1 else 0)) \<and>
           (\<forall>dt. counter_get (by_dtype_bytes st') dt =
                   counter_get (by_dtype_bytes st) dt
                   + (if dt = data_type info then size_bytes info else 0)) \<and>
           results st' = results st @ [info])"
  proof (cases "decoded fs root fn")
    case None
    then show ?thesis
      using scan_file_skipped by simp
  next
    case (Some i)
    then show ?thesis
      using scan_file_counted [OF Some] by simp
  qed
  have d: "scan_dir fs walk = Inr st'' \<longrightarrow>
      results st'' = decoded_infos fs walk \<and>
      total_files st'' = int (length (decoded_infos fs walk)) \<and>
      total_bytes st'' = sum_list (map size_bytes (decoded_infos fs walk)) \<and>
      (\<forall>dt. counter_get (by_dtype_files st'') dt =
              int (length (filter (\<lambda>info. data_type info = dt) (decoded_infos fs walk)))) \<and>
      (\<forall>dt. counter_get (by_dtype_bytes st'') dt =
              sum_list (map size_bytes
                (filter (\<lambda>info. data_type info = dt) (decoded_infos fs walk))))"
  proof
    assume s: "scan_dir fs walk = Inr st''"
    then have "results st'' = results scan_init @ decoded_infos fs walk"
      unfolding scan_dir_def by (rule scan_walk_results)
    then have r: "results st'' = decoded_infos fs walk"
      by (simp add: scan_init_def)
    have "scan_invariant st''"
      using b s by blast
    then show "results st'' = decoded_infos fs walk \<and>
      total_files st'' = int (length (decoded_infos fs walk)) \<and>
      total_bytes st'' = sum_list (map size_bytes (decoded_infos fs walk)) \<and>
      (\<forall>dt. counter_get (by_dtype_files st'') dt =
              int (length (filter (\<lambda>info. data_type info = dt) (decoded_infos fs walk)))) \<and>
      (\<forall>dt. counter_get (by_dtype_bytes st'') dt =
              sum_list (map size_bytes
                (filter (\<lambda>info. data_type info = dt) (decoded_infos fs walk))))"
      unfolding scan_invariant_def r by simp
  qed
  show ?thesis
    using a b c d decoded_from_bytes [of fs root fn info] by blast
qed

lemma example_decoded:
  "decoded_infos example_fs example_walk =
     [\<lparr>path = ''d/a.bt'', size_bytes = 16, version = 1, data_type = 14, count = 1000\<rparr>,
      \<lparr>path = ''d/f.bt'', size_bytes = 22, version = 1, data_type = 14, count = 2\<rparr>,
      \<lparr>path = ''d/g.bt'', size_bytes = 24, version = 1, data_type = 8, count = 1\<rparr>]"
  by (simp add: decoded_infos_def decoded_def is_bt_def map_filter_simps
      example_fs_def example_walk_def scan_eval)

text \<open>
  The small corpus: of its six names three are files whose header is read, two of them
  of type 14; the scan counts three files and 62 bytes, in the totals and in the breakdown.
\<close>

theorem scan_dir_totals_agree_witness:
  "\<exists>st. scan_dir example_fs example_walk = Inr st \<and>
        scan_invariant st \<and>
        length (decoded_infos example_fs example_walk) = 3 \<and>
        total_files st = 3 \<and> counter_total (by_dtype_files st) = 3 \<and>
        counter_get (by_dtype_files st) 14 = 2 \<and> counter_get (by_dtype_files st) 8 = 1 \<and>
        total_bytes st = 62 \<and> counter_total (by_dtype_bytes st) = 62"
proof -
  obtain st where st: "scan_dir example_fs example_walk = Inr st"
    using example_scan by blast
  note t = scan_dir_totals_agree [of scan_init example_fs "''d''" "''c.txt''" scan_init
      example_walk st]
  have i: "scan_invariant st"
    using t st by blast
  have f: "total_files st = int (length (decoded_infos example_fs example_walk))"
    "total_bytes st = sum_list (map size_bytes (decoded_infos example_fs example_walk))"
    "counter_get (by_dtype_files st) 14 =
       int (length (filter (\<lambda>info. data_type info = 14)
                      (decoded_infos example_fs example_walk)))"
    "counter_get (by_dtype_files st) 8 =
       int (length (filter (\<lambda>info. data_type info = 8)
                      (decoded_infos example_fs example_walk)))"
    using t st by blast+
  have n: "total_files st = 3" "total_bytes st = 62"
    "counter_get (by_dtype_files st) 14 = 2" "counter_get (by_dtype_files st) 8 = 1"
    using f unfolding example_decoded by simp_all
  have "counter_total (by_dtype_files st) = 3" "counter_total (by_dtype_bytes st) = 62"
    using i n unfolding scan_invariant_def by simp_all
  then show ?thesis
    using st i n by (auto simp: example_decoded)
qed

section \<open>Column lookup\<close>

lemma try_extensions_mmf_bt:
  "try_extensions fs directory col [''.mmf'', ''.bt''] =
     (if path_exists fs (path_join directory (col @ ''.mmf''))
      then Some (path_join directory (col @ ''.mmf''))
      else if path_exists fs (path_join directory (col @ ''.bt''))
      then Some (path_join directory (col @ ''.bt''))
      else None)"
  by (simp add: Let_def)

lemma find_column_step:
  assumes "\<forall>k. map_of found k =
             (if k \<in> S then try_extensions fs directory k [''.mmf'', ''.bt''] else None)"
    and "set err = (\<lambda>c. not_found_warning c directory) `
                     {c \<in> S. try_extensions fs directory c [''.mmf'', ''.bt''] = None}"
    and "find_column fs directory (err, found) col = (err', found')"
  shows "\<forall>k. map_of found' k =
             (if k \<in> insert col S then try_extensions fs directory k [''.mmf'', ''.bt''] else None)"
    and "set err' = (\<lambda>c. not_found_warning c directory) `
                      {c \<in> insert col S. try_extensions fs directory c [''.mmf'', ''.bt''] = None}"
proof -
  let ?t = "\<lambda>k. try_extensions fs directory k [''.mmf'', ''.bt'']"
  show "\<forall>k. map_of found' k = (if k \<in> insert col S then ?t k else None)"
  proof (cases "?t col")
    case None
    then have "found' = found"
      using assms(3) by (auto simp: find_column_def Let_def split: if_splits)
    then show ?thesis
      using assms(1) None by auto
  next
    case (Some fp)
    then have "found' = AList.update col fp found"
      using assms(3) by (auto simp: find_column_def Let_def split: if_splits)
    then show ?thesis
      using assms(1) Some by (auto simp: update_conv')
  qed
  show "set err' = (\<lambda>c. not_found_warning c directory) ` {c \<in> insert col S. ?t c = None}"
  proof (cases "?t col")
    case None
    have "map_of found col = None"
      using assms(1) None by simp
    then have "col \<notin> fst ` set found"
      by (simp add: map_of_eq_None_iff)
    then have "err' = err @ [not_found_warning col directory]"
      using assms(3) None by (simp add: find_column_def)
    moreover have "{c \<in> insert col S. ?t c = None} = insert col {c \<in> S. ?t c = None}"
      using None by auto
    ultimately show ?thesis
      using assms(2) by simp
  next
    case (Some fp)
    have "map_of (AList.update col fp found) col = Some fp"
      by (simp add: update_conv')
    then have "col \<in> fst ` set (AList.update col fp found)"
      by (metis map_of_eq_None_iff option.distinct(1))
    then have "err' = err"
      using assms(3) Some by (simp add: find_column_def)
    moreover have "{c \<in> insert col S. ?t c = None} = {c \<in> S. ?t c = None}"
      using Some by auto
    ultimately show ?thesis
      using assms(2) by simp
  qed
qed

lemma find_columns_fold:
  assumes "\<forall>k. map_of found k =
             (if k \<in> S then try_extensions fs directory k [''.mmf'', ''.bt''] else None)"
    and "set err = (\<lambda>c. not_found_warning c directory) `
                     {c \<in> S. try_extensions fs directory c [''.mmf'', ''.bt''] = None}"
    and "fold (\<lambda>col acc. find_column fs directory acc col) cols (err, found) = (err', found')"
  shows "(\<forall>k. map_of found' k =
             (if k \<in> S \<union> set cols then try_extensions fs directory k [''.mmf'', ''.bt'']
              else None)) \<and>
         set err' = (\<lambda>c. not_found_warning c directory) `
                      {c \<in> S \<union> set cols. try_extensions fs directory c [''.mmf'', ''.bt''] = None}"
  using assms
proof (induction cols arbitrary: S err found)
  case Nil
  then show ?case by simp
next
  case (Cons col cols)
  obtain err1 found1 where s: "find_column fs directory (err, found) col = (err1, found1)"
    by (cases "find_column fs directory (err, found) col")
  note step = find_column_step [OF Cons.prems(1,2) s]
  have "fold (\<lambda>col acc. find_column fs directory acc col) cols (err1, found1) = (err', found')"
    using Cons.prems(3) s by simp
  from Cons.IH [OF step this] show ?case
    by simp
qed

text \<open>
  C10.  With a non-empty list of column names, \<^verbatim>\<open>find_mmf_files\<close> maps each requested
  name to \<open><name>.mmf\<close> whenever that file exists, whether or not \<open><name>.bt\<close> exists
  too, to \<open><name>.bt\<close> when only that one exists, and to nothing when neither exists, in
  which case the warning for the name is printed; no other name is in the result.
\<close>

theorem find_mmf_files_prefers_mmf:
  assumes "listdir fs directory = Some entries" and "column_names \<noteq> []"
  shows "\<exists>err found.
           find_mmf_files fs directory (Some column_names) = Inr (err, found) \<and>
           (\<forall>col \<in> set column_names.
              (path_exists fs (path_join directory (col @ ''.mmf'')) \<longrightarrow>
                 map_of found col = Some (path_join directory (col @ ''.mmf''))) \<and>
              (\<not> path_exists fs (path_join directory (col @ ''.mmf'')) \<and>
               path_exists fs (path_join directory (col @ ''.bt'')) \<longrightarrow>
                 map_of found col = Some (path_join directory (col @ ''.bt''))) \<and>
              (\<not> path_exists fs (path_join directory (col @ ''.mmf'')) \<and>
               \<not> path_exists fs (path_join directory (col @ ''.bt'')) \<longrightarrow>
                 map_of found col = None \<and> not_found_warning col directory \<in> set err)) \<and>
           (\<forall>k. k \<notin> set column_names \<longrightarrow> map_of found k = None)"
proof -
  let ?t = "\<lambda>k. try_extensions fs directory k [''.mmf'', ''.bt'']"
  obtain err found where
    f: "fold (\<lambda>col acc. find_column fs directory acc col) column_names ([], []) = (err, found)"
    by (cases "fold (\<lambda>col acc. find_column fs directory acc col) column_names ([], [])")
  obtain c cs where cs: "column_names = c # cs"
    using assms(2) by (cases column_names) auto
  have r: "find_mmf_files fs directory (Some column_names) = Inr (err, found)"
    using assms(1) f unfolding cs by (simp add: find_mmf_files_def)
  have i: "\<forall>k. map_of [] k = (if k \<in> {} then ?t k else None)"
    "set [] = (\<lambda>c. not_found_warning c directory) ` {c \<in> {}. ?t c = None}"
    by simp_all
  from find_columns_fold [OF i f]
  have m: "\<forall>k. map_of found k = (if k \<in> set column_names then ?t k else None)"
    and w: "set err = (\<lambda>c. not_found_warning c directory) ` {c \<in> set column_names. ?t c = None}"
    by simp_all
  have "\<forall>col \<in> set column_names.
              (path_exists fs (path_join directory (col @ ''.mmf'')) \<longrightarrow>
                 map_of found col = Some (path_join directory (col @ ''.mmf''))) \<and>
              (\<not> path_exists fs (path_join directory (col @ ''.mmf'')) \<and>
               path_exists fs (path_join directory (col @ ''.bt'')) \<longrightarrow>
                 map_of found col = Some (path_join directory (col @ ''.bt''))) \<and>
              (\<not> path_exists fs (path_join directory (col @ ''.mmf'')) \<and>
               \<not> path_exists fs (path_join directory (col @ ''.bt'')) \<longrightarrow>
                 map_of found col = None \<and> not_found_warning col directory \<in> set err)"
    using m w by (auto simp: try_extensions_mmf_bt)
  moreover have "\<forall>k. k \<notin> set column_names \<longrightarrow> map_of found k = None"
    using m by simp
  ultimately show ?thesis
    using r by blast
qed

text \<open>The three cases in one directory.\<close>

theorem find_mmf_files_prefers_mmf_witness:
  "\<exists>err found.
     find_mmf_files example_dir ''d'' (Some [''Close'', ''Open'', ''Volume'']) = Inr (err, found) \<and>
     map_of found ''Close'' = Some ''d/Close.mmf'' \<and>
     map_of found ''Open'' = Some ''d/Open.bt'' \<and>
     map_of found ''Volume'' = None \<and>
     not_found_warning ''Volume'' ''d'' \<in> set err"
proof -
  have l: "listdir example_dir ''d'' = Some [''Close.mmf'', ''Close.bt'', ''Open.bt'']"
    and n: "[''Close'', ''Open'', ''Volume''] \<noteq> []"
    by (simp_all add: example_dir_def)
  have e: "path_exists example_dir (path_join ''d'' (''Close'' @ ''.mmf''))"
    "path_exists example_dir (path_join ''d'' (''Close'' @ ''.bt''))"
    "\<not> path_exists example_dir (path_join ''d'' (''Open'' @ ''.mmf''))"
    "path_exists example_dir (path_join ''d'' (''Open'' @ ''.bt''))"
    "\<not> path_exists example_dir (path_join ''d'' (''Volume'' @ ''.mmf''))"
    "\<not> path_exists example_dir (path_join ''d'' (''Volume'' @ ''.bt''))"
    by (simp_all add: example_dir_def path_exists_def path_join_def)
  have p: "path_join ''d'' (''Close'' @ ''.mmf'') = ''d/Close.mmf''"
    "path_join ''d'' (''Open'' @ ''.bt'') = ''d/Open.bt''"
    by (simp_all add: path_join_def)
  obtain err found where
    r: "find_mmf_files example_dir ''d'' (Some [''Close'', ''Open'', ''Volume'']) = Inr (err, found)"
    and a: "\<forall>col \<in> set [''Close'', ''Open'', ''Volume''].
              (path_exists example_dir (path_join ''d'' (col @ ''.mmf'')) \<longrightarrow>
                 map_of found col = Some (path_join ''d'' (col @ ''.mmf''))) \<and>
              (\<not> path_exists example_dir (path_join ''d'' (col @ ''.mmf'')) \<and>
               path_exists example_dir (path_join ''d'' (col @ ''.bt'')) \<longrightarrow>
                 map_of found col = Some (path_join ''d'' (col @ ''.bt''))) \<and>
              (\<not> path_exists example_dir (path_join ''d'' (col @ ''.mmf'')) \<and>
               \<not> path_exists example_dir (path_join ''d'' (col @ ''.bt'')) \<longrightarrow>
                 map_of found col = None \<and> not_found_warning col ''d'' \<in> set err)"
    using find_mmf_files_prefers_mmf [OF l n] by blast
  have "map_of found ''Close'' = Some ''d/Close.mmf''"
    using a e(1) p(1) by simp
  moreover have "map_of found ''Open'' = Some ''d/Open.bt''"
    using a e(3,4) p(2) by simp
  moreover have "map_of found ''Volume'' = None \<and> not_found_warning ''Volume'' ''d'' \<in> set err"
    using a e(5,6) by simp
  ultimately show ?thesis
    using r by blast
qed

section \<open>Merging columns\<close>

lemma chunks_numeral:
  "chunks w (numeral k) bs = take w bs # chunks w (pred_numeral k) (drop w bs)"
  by (simp add: numeral_eq_Suc)

lemma update_append:
  "k \<notin> fst ` set al \<Longrightarrow> AList.update k v al = al @ [(k, v)]"
  by (induction al) auto

lemma fold_max_upper: "x \<in> set xs \<Longrightarrow> x \<le> fold max xs (m::nat)"
  and fold_max_init: "m \<le> fold max xs m"
  and fold_max_mem: "fold max xs m \<in> insert m (set xs)"
proof -
  have "(\<forall>x \<in> set xs. x \<le> fold max xs m) \<and> m \<le> fold max xs m \<and>
        fold max xs m \<in> insert m (set xs)"
  proof (induction xs arbitrary: m)
    case Nil
    then show ?case by simp
  next
    case (Cons a xs)
    have "a \<le> fold max xs (max a m)" "m \<le> fold max xs (max a m)"
      using Cons [of "max a m"] by (meson max.cobounded1 max.cobounded2 order_trans)+
    moreover have "fold max xs (max a m) \<in> insert m (insert a (set xs))"
    proof -
      have "fold max xs (max a m) \<in> insert (max a m) (set xs)"
        using Cons [of "max a m"] by simp
      moreover have "max a m = a \<or> max a m = m"
        by (simp add: max_def)
      ultimately show ?thesis by auto
    qed
    ultimately show ?case
      using Cons [of "max a m"] by simp
  qed
  then show "x \<in> set xs \<Longrightarrow> x \<le> fold max xs m" "m \<le> fold max xs m"
    "fold max xs m \<in> insert m (set xs)"
    by simp_all
qed

lemma read_columns_appends:
  assumes "read_columns fs fls (cols0, m0) = Inr (cols, m)"
    and "distinct (map fst fls)"
    and "set (map fst fls) \<inter> set (map fst cols0) = {}"
  shows "\<exists>new. cols = cols0 @ new \<and> map fst new = map fst fls \<and>
           m = fold max (map (\<lambda>(col_name, series). len series) new) m0"
  using assms
proof (induction fls arbitrary: cols0 m0)
  case Nil
  then show ?case by simp
next
  case (Cons a fls)
  obtain c p where a: "a = (c, p)" by (cases a)
  obtain series where s: "read_column fs p c = Inr series"
    and r: "read_columns fs fls (AList.update c series cols0, max m0 (len series)) = Inr (cols, m)"
    using Cons.prems(1) unfolding a
    by (auto split: sum.splits ListMmfReadError.splits)
  have "c \<notin> fst ` set cols0"
    using Cons.prems(3) by (auto simp: a)
  then have u: "AList.update c series cols0 = cols0 @ [(c, series)]"
    by (rule update_append)
  have d: "distinct (map fst fls)"
    "set (map fst fls) \<inter> set (map fst (cols0 @ [(c, series)])) = {}"
    using Cons.prems(2,3) by (auto simp: a)
  obtain new where new: "cols = (cols0 @ [(c, series)]) @ new" "map fst new = map fst fls"
    "m = fold max (map (\<lambda>(col_name, series). len series) new) (max m0 (len series))"
    using Cons.IH [OF r [unfolded u] d] by blast
  have "cols = cols0 @ ((c, series) # new)"
    using new(1) by simp
  moreover have "map fst ((c, series) # new) = map fst (a # fls)"
    using new(2) by (simp add: a)
  moreover have "m = fold max (map (\<lambda>(col_name, series). len series) ((c, series) # new)) m0"
    using new(3) by (simp add: max.commute)
  ultimately show ?case by blast
qed

lemma length_warning_differs:
  assumes "(n1, s1) \<in> set columns" "(n2, s2) \<in> set columns" "len s1 \<noteq> len s2"
  shows "length_warning columns =
           [''WARNING: Columns have different lengths:'']
           @ map (\<lambda>(col_name, series). ''  '' @ col_name @ '': '' @ str_thousands (len series))
               columns
           @ [''Creating DataFrame with mismatched lengths (NaN will be filled).'']"
proof -
  let ?ls = "map snd (map (\<lambda>(col_name, series). (col_name, len series)) columns)"
  have "len s1 \<in> set ?ls" "len s2 \<in> set ?ls"
    using assms(1,2) by force+
  then have "{len s1, len s2} \<subseteq> set ?ls" by simp
  then have "card {len s1, len s2} \<le> card (set ?ls)"
    by (simp add: card_mono)
  then have "1 < length (remdups ?ls)"
    using assms(3) by (simp add: length_remdups_card_conv)
  then show ?thesis
    by (simp add: length_warning_def Let_def case_prod_unfold comp_def)
qed

lemma reindex_cells:
  assumes "length (items a) \<le> n"
  shows "length (cells (reindex n a)) = n"
    and "take (length (items a)) (cells (reindex n a)) = map Some (items a)"
    and "drop (length (items a)) (cells (reindex n a)) = replicate (n - length (items a)) None"
  using assms by (simp_all add: reindex_def)

lemma reindex_dtype:
  "col_dtype (reindex n a) = (if length (items a) = n then dtype a else promote (dtype a))"
  by (simp add: reindex_def)

lemma missing_value_promote:
  "missing_value (promote dt) = Some (if dt = datetime64_ns then ''NaT'' else ''NaN'')"
  by (cases dt) simp_all

text \<open>
  C4.  When every column of a non-empty dictionary of files has been read and two of the
  columns differ in length, \<^verbatim>\<open>convert_to_parquet\<close> prints the length warning and still
  returns the frame: neither \<^verbatim>\<open>ValueError\<close> nor \<^verbatim>\<open>sys.exit\<close>.  The frame has as many rows
  as the longest column (the \<^verbatim>\<open>max_length\<close> of the loop), its columns are the given names
  in the given order, and each column holds the elements that were read followed by
  missing values up to that length.  A column of full length keeps its element type; a
  shorter column has the promoted type, which has a missing value: \<^verbatim>\<open>NaT\<close> for a
  \<^verbatim>\<open>datetime64[ns]\<close> column and \<^verbatim>\<open>NaN\<close> for every other one.
\<close>

theorem convert_to_parquet_pads:
  assumes "fls \<noteq> []" and "distinct (map fst fls)"
    and "read_columns fs fls ([], 0) = Inr (columns, max_length)"
    and "(n1, s1) \<in> set columns" and "(n2, s2) \<in> set columns" and "len s1 \<noteq> len s2"
  shows "\<exists>df. convert_to_parquet fs fls = (length_warning columns, Inr df) \<and>
           ''WARNING: Columns have different lengths:'' \<in> set (length_warning columns) \<and>
           nrows df = max_length \<and>
           (\<forall>(col_name, series) \<in> set columns. len series \<le> max_length) \<and>
           (\<exists>(col_name, series) \<in> set columns. len series = max_length) \<and>
           map fst (df_columns df) = map fst fls \<and>
           map fst columns = map fst fls \<and>
           (\<forall>j < length columns.
              length (cells (snd (df_columns df ! j))) = max_length \<and>
              take (len (snd (columns ! j))) (cells (snd (df_columns df ! j)))
                = map Some (items (data (snd (columns ! j)))) \<and>
              drop (len (snd (columns ! j))) (cells (snd (df_columns df ! j)))
                = replicate (max_length - len (snd (columns ! j))) None \<and>
              (len (snd (columns ! j)) = max_length \<longrightarrow>
                 col_dtype (snd (df_columns df ! j)) = dtype (data (snd (columns ! j)))) \<and>
              (len (snd (columns ! j)) < max_length \<longrightarrow>
                 col_dtype (snd (df_columns df ! j)) = promote (dtype (data (snd (columns ! j)))) \<and>
                 missing_value (col_dtype (snd (df_columns df ! j))) =
                   Some (if dtype (data (snd (columns ! j))) = datetime64_ns
                         then ''NaT'' else ''NaN'')))"
proof -
  let ?lens = "map (\<lambda>(col_name, series). len series) columns"
  let ?df = "pd_DataFrame columns"
  have c: "convert_to_parquet fs fls = (length_warning columns, Inr ?df)"
    using assms(1,3) by (simp add: convert_to_parquet_def)
  have w: "''WARNING: Columns have different lengths:'' \<in> set (length_warning columns)"
    unfolding length_warning_differs [OF assms(4,5,6)] by simp
  have "\<exists>new. columns = [] @ new \<and> map fst new = map fst fls \<and>
          max_length = fold max (map (\<lambda>(col_name, series). len series) new) 0"
    using read_columns_appends [OF assms(3,2)] by simp
  then have k: "map fst columns = map fst fls" and m: "max_length = fold max ?lens 0"
    by simp_all
  have n: "nrows ?df = max_length"
    by (simp add: pd_DataFrame_def m Let_def)
  have le: "\<forall>(col_name, series) \<in> set columns. len series \<le> max_length"
    unfolding m using fold_max_upper [of _ ?lens 0] by force
  have "?lens \<noteq> []"
    using assms(4) by auto
  have "max_length \<in> insert 0 (set ?lens)"
    unfolding m by (rule fold_max_mem)
  moreover have "max_length \<noteq> 0 \<or> max_length \<in> set ?lens"
  proof (cases "max_length = 0")
    case True
    then have "len s1 = 0"
      using le assms(4) by auto
    then show ?thesis
      using True assms(4) by force
  next
    case False
    then show ?thesis by simp
  qed
  ultimately have "max_length \<in> set ?lens" by auto
  then have ex: "\<exists>(col_name, series) \<in> set columns. len series = max_length"
    by auto
  have dk: "map fst (df_columns ?df) = map fst fls"
    unfolding k [symmetric] by (simp add: pd_DataFrame_def Let_def case_prod_unfold comp_def)
  have cells: "\<forall>j < length columns.
              length (cells (snd (df_columns ?df ! j))) = max_length \<and>
              take (len (snd (columns ! j))) (cells (snd (df_columns ?df ! j)))
                = map Some (items (data (snd (columns ! j)))) \<and>
              drop (len (snd (columns ! j))) (cells (snd (df_columns ?df ! j)))
                = replicate (max_length - len (snd (columns ! j))) None \<and>
              (len (snd (columns ! j)) = max_length \<longrightarrow>
                 col_dtype (snd (df_columns ?df ! j)) = dtype (data (snd (columns ! j)))) \<and>
              (len (snd (columns ! j)) < max_length \<longrightarrow>
                 col_dtype (snd (df_columns ?df ! j)) = promote (dtype (data (snd (columns ! j)))) \<and>
                 missing_value (col_dtype (snd (df_columns ?df ! j))) =
                   Some (if dtype (data (snd (columns ! j))) = datetime64_ns
                         then ''NaT'' else ''NaN''))"
  proof (intro allI impI)
    fix j assume j: "j < length columns"
    then have "columns ! j \<in> set columns" by simp
    then have l: "length (items (data (snd (columns ! j)))) \<le> max_length"
      using le by (auto simp: len_def case_prod_unfold)
    have "snd (df_columns ?df ! j) = reindex max_length (data (snd (columns ! j)))"
      using j by (simp add: pd_DataFrame_def m Let_def case_prod_unfold)
    then show "length (cells (snd (df_columns ?df ! j))) = max_length \<and>
              take (len (snd (columns ! j))) (cells (snd (df_columns ?df ! j)))
                = map Some (items (data (snd (columns ! j)))) \<and>
              drop (len (snd (columns ! j))) (cells (snd (df_columns ?df ! j)))
                = replicate (max_length - len (snd (columns ! j))) None \<and>
              (len (snd (columns ! j)) = max_length \<longrightarrow>
                 col_dtype (snd (df_columns ?df ! j)) = dtype (data (snd (columns ! j)))) \<and>
              (len (snd (columns ! j)) < max_length \<longrightarrow>
                 col_dtype (snd (df_columns ?df ! j)) = promote (dtype (data (snd (columns ! j)))) \<and>
                 missing_value (col_dtype (snd (df_columns ?df ! j))) =
                   Some (if dtype (data (snd (columns ! j))) = datetime64_ns
                         then ''NaT'' else ''NaN''))"
      using reindex_cells [OF l] l
      by (simp add: len_def reindex_dtype missing_value_promote)
  qed
  show ?thesis
    using c w n le ex dk k cells by blast
qed

text \<open>Reading the two example columns, computed.\<close>

lemmas reader_eval =
  read_column_def read_mmf_def read_listmmf_def read_header_def np_memmap_def
  HEADER_SIZE_def struct_unpack_iiq_def int32_of_bytes_def int64_of_bytes_def
  word32_of_bytes_def word64_of_bytes_def DATA_TYPE_NAMES_def DTYPE_MAP_def
  ODD_BYTE_TYPES_def lower_def lower_char_def chunks_numeral len_def

lemma example_read_columns:
  "read_columns example_columns_fs [(''A'', ''d/A.bt''), (''B'', ''d/B.bt'')] ([], 0)
   = Inr (example_columns, 10)"
  by (simp add: example_columns_fs_def example_columns_def reader_eval)

text \<open>Column A of 10 elements and column B of 7: B gets three missing cells.\<close>

theorem convert_to_parquet_pads_witness:
  "\<exists>df. convert_to_parquet example_columns_fs [(''A'', ''d/A.bt''), (''B'', ''d/B.bt'')]
           = (length_warning example_columns, Inr df) \<and>
        ''WARNING: Columns have different lengths:'' \<in> set (length_warning example_columns) \<and>
        nrows df = 10 \<and>
        cells (snd (df_columns df ! 1))
          = [Some [11], Some [12], Some [13], Some [14], Some [15], Some [16], Some [17],
             None, None, None] \<and>
        col_dtype (snd (df_columns df ! 0)) = np_uint8 \<and>
        col_dtype (snd (df_columns df ! 1)) = np_float64 \<and>
        missing_value (col_dtype (snd (df_columns df ! 1))) = Some ''NaN''"
proof -
  let ?fls = "[(''A'', ''d/A.bt''), (''B'', ''d/B.bt'')]"
  let ?sa = "\<lparr>name = ''A'',
               data = \<lparr>dtype = np_uint8,
                       items = [[1], [2], [3], [4], [5], [6], [7], [8], [9], [10 :: byte]]\<rparr>\<rparr>"
  let ?sb = "\<lparr>name = ''B'',
               data = \<lparr>dtype = np_uint8,
                       items = [[11], [12], [13], [14], [15], [16], [17 :: byte]]\<rparr>\<rparr>"
  have h: "?fls \<noteq> []" "distinct (map fst ?fls)"
    "(''A'', ?sa) \<in> set example_columns" "(''B'', ?sb) \<in> set example_columns"
    "len ?sa \<noteq> len ?sb"
    by (simp_all add: example_columns_def len_def)
  obtain df where df:
    "convert_to_parquet example_columns_fs ?fls = (length_warning example_columns, Inr df)"
    "''WARNING: Columns have different lengths:'' \<in> set (length_warning example_columns)"
    "nrows df = 10"
    "\<forall>j < length example_columns.
              length (cells (snd (df_columns df ! j))) = 10 \<and>
              take (len (snd (example_columns ! j))) (cells (snd (df_columns df ! j)))
                = map Some (items (data (snd (example_columns ! j)))) \<and>
              drop (len (snd (example_columns ! j))) (cells (snd (df_columns df ! j)))
                = replicate (10 - len (snd (example_columns ! j))) None \<and>
              (len (snd (example_columns ! j)) = 10 \<longrightarrow>
                 col_dtype (snd (df_columns df ! j)) = dtype (data (snd (example_columns ! j)))) \<and>
              (len (snd (example_columns ! j)) < 10 \<longrightarrow>
                 col_dtype (snd (df_columns df ! j))
                   = promote (dtype (data (snd (example_columns ! j)))) \<and>
                 missing_value (col_dtype (snd (df_columns df ! j))) =
                   Some (if dtype (data (snd (example_columns ! j))) = datetime64_ns
                         then ''NaT'' else ''NaN''))"
    using convert_to_parquet_pads [OF h(1,2) example_read_columns h(3,4,5)] by blast
  have i: "0 < length example_columns" "1 < length example_columns"
    by (simp_all add: example_columns_def)
  have "len (snd (example_columns ! 0)) = 10 \<longrightarrow>
          col_dtype (snd (df_columns df ! 0)) = dtype (data (snd (example_columns ! 0)))"
    using df(4) i(1) by blast
  then have t0: "col_dtype (snd (df_columns df ! 0)) = np_uint8"
    by (simp add: example_columns_def len_def)
  have "len (snd (example_columns ! 1)) < 10 \<longrightarrow>
          col_dtype (snd (df_columns df ! 1))
            = promote (dtype (data (snd (example_columns ! 1)))) \<and>
          missing_value (col_dtype (snd (df_columns df ! 1))) =
            Some (if dtype (data (snd (example_columns ! 1))) = datetime64_ns
                  then ''NaT'' else ''NaN'')"
    using df(4) i(2) by blast
  then have t1: "col_dtype (snd (df_columns df ! 1)) = np_float64"
    "missing_value (col_dtype (snd (df_columns df ! 1))) = Some ''NaN''"
    by (simp_all add: example_columns_def len_def)
  have "take (len (snd (example_columns ! 1))) (cells (snd (df_columns df ! 1)))
                = map Some (items (data (snd (example_columns ! 1))))"
    "drop (len (snd (example_columns ! 1))) (cells (snd (df_columns df ! 1)))
                = replicate (10 - len (snd (example_columns ! 1))) None"
    using df(4) i(2) by blast+
  then have "take 7 (cells (snd (df_columns df ! 1)))
               = [Some [11], Some [12], Some [13], Some [14], Some [15], Some [16], Some [17]]"
    "drop 7 (cells (snd (df_columns df ! 1))) = [None, None, None]"
    by (simp_all add: example_columns_def len_def numeral_eq_Suc)
  then have "cells (snd (df_columns df ! 1))
          = [Some [11], Some [12], Some [13], Some [14], Some [15], Some [16], Some [17]]
            @ [None, None, None]"
    by (metis append_take_drop_id)
  then show ?thesis
    using df(1,2,3) t0 t1 by auto
qed

end
